theory Spec2Isabelle
  imports Main "HOL-Library.Sublist"
begin

section \<open>Data model\<close>

text \<open>
  A JobRecord is the dict that \<^verbatim>\<open>extract_results\<close> builds: the keys
  \<^verbatim>\<open>title\<close>, \<^verbatim>\<open>url\<close> and \<^verbatim>\<open>snippet\<close>, each holding a
  text or Python's \<^verbatim>\<open>None\<close>. \<^verbatim>\<open>r.get("url")\<close> is the field \<open>url r\<close>;
  \<open>None\<close> stands for both a stored \<^verbatim>\<open>None\<close> and an absent key, which
  \<^verbatim>\<open>dict.get\<close> does not tell apart.
\<close>

record job_record =
  title :: "string option"
  url :: "string option"
  snippet :: "string option"

text \<open>
  Python's truth value of an optional text: \<^verbatim>\<open>None\<close> and the empty string are
  false, every other string is true.
\<close>

fun truthy :: "string option \<Rightarrow> bool" where
  "truthy None = False"
| "truthy (Some s) = (s \<noteq> [])"

section \<open>The deduplicator\<close>

text \<open>
  \<^verbatim>\<open>
  def dedupe(results):
      seen, out = set(), []
      for r in results:
          key = r.get("url")
          if key and key not in seen:
              seen.add(key)
              out.append(r)
      return out
  \<close>
  The loop is a recursion over the remaining input that carries \<open>seen\<close> and \<open>out\<close>.
\<close>

fun dedupe_loop ::
  "job_record list \<Rightarrow> string option set \<Rightarrow> job_record list \<Rightarrow> job_record list" where
  "dedupe_loop [] seen out = out"
| "dedupe_loop (r # rs) seen out =
     (let key = url r in
      if truthy key \<and> key \<notin> seen
      then dedupe_loop rs (insert key seen) (out @ [r])
      else dedupe_loop rs seen out)"

definition dedupe :: "job_record list \<Rightarrow> job_record list" where
  "dedupe results = dedupe_loop results {} []"

text \<open>
  The position of the first element of a list equal to \<open>r\<close> (the length of the list
  when there is none): where a record first appears.
\<close>

definition first_pos :: "'a list \<Rightarrow> 'a \<Rightarrow> nat" where
  "first_pos xs r = length (takeWhile (\<lambda>x. x \<noteq> r) xs)"

text \<open>How often a record occurs in a list.\<close>

definition occurrences :: "job_record list \<Rightarrow> job_record \<Rightarrow> nat" where
  "occurrences xs r = length (filter (\<lambda>x. x = r) xs)"

text \<open>Sample records: two postings under one link, one under another, two without a link.\<close>

definition rec_a1 :: job_record where
  "rec_a1 = \<lparr>title = Some ''Cloud Engineer'', url = Some ''https://x.com/a'',
            snippet = Some ''first''\<rparr>"

definition rec_a2 :: job_record where
  "rec_a2 = \<lparr>title = Some ''Cloud Engineer (repost)'', url = Some ''https://x.com/a'',
            snippet = Some ''second''\<rparr>"

definition rec_b :: job_record where
  "rec_b = \<lparr>title = Some ''SRE'', url = Some ''https://x.com/b'', snippet = None\<rparr>"

definition rec_nourl :: job_record where
  "rec_nourl = \<lparr>title = Some ''No link'', url = None, snippet = Some ''s''\<rparr>"

definition rec_emptyurl :: job_record where
  "rec_emptyurl = \<lparr>title = Some ''Empty link'', url = Some [], snippet = Some ''s''\<rparr>"

section \<open>Configuration and the outside world\<close>

text \<open>
  The module globals of lines 17 to 23, as the import leaves them. \<^verbatim>\<open>os.getenv\<close>
  gives \<^verbatim>\<open>None\<close> for a variable that is not set, so the five globals read without a
  default are optional texts. \<open>RECIPIENT\<close> is read from \<^verbatim>\<open>RECIPIENT_EMAIL\<close> and
  \<open>FROM_EMAIL\<close> from \<^verbatim>\<open>SMTP_USER\<close>; the other globals carry their variable's name.
\<close>

record config =
  GOOGLE_API_KEY :: "string option"
  GOOGLE_CSE_ID :: "string option"
  RECIPIENT :: "string option"
  FROM_EMAIL :: "string option"
  SMTP_SERVER :: string
  SMTP_PORT :: int
  SMTP_PASS :: "string option"

text \<open>The variable each required global is read from, with the global's value.\<close>

definition required_vars :: "config \<Rightarrow> (string \<times> string option) list" where
  "required_vars cfg =
     [(''GOOGLE_API_KEY'', GOOGLE_API_KEY cfg),
      (''GOOGLE_CSE_ID'', GOOGLE_CSE_ID cfg),
      (''RECIPIENT_EMAIL'', RECIPIENT cfg),
      (''SMTP_USER'', FROM_EMAIL cfg),
      (''SMTP_PASS'', SMTP_PASS cfg)]"

text \<open>The names of the required variables that are not set, or set to the empty text.\<close>

definition missing_vars :: "config \<Rightarrow> string list" where
  "missing_vars cfg = map fst (filter (\<lambda>nv. \<not> truthy (snd nv)) (required_vars cfg))"

definition QUERIES :: "string list" where
  \<open>QUERIES =
     [''("entry-level" OR junior OR fresher) (cloud OR devops OR aws) jobs Chennai'',
      ''("cloud engineer" OR "devops engineer") (jobs OR hiring) ("Bengaluru" OR "Chennai" OR "Hyderabad")'',
      ''("entry-level" OR junior) ("Cloud Engineer" OR "SRE")'']\<close>

text \<open>
  An exception is kept as the text that \<^verbatim>\<open>str\<close> gives for it. The values passed as
  request parameters are texts, integers or \<^verbatim>\<open>None\<close>.
\<close>

datatype py_exception = PyException (message: string)

datatype pyval = PyNone | PyStr string | PyInt int

fun of_opt :: "string option \<Rightarrow> pyval" where
  "of_opt None = PyNone"
| "of_opt (Some s) = PyStr s"

record http_request =
  req_url :: string
  req_params :: "(string \<times> pyval) list"
  req_timeout :: nat

text \<open>
  A result item of the search response is a dict from field names to texts; the parsed
  response holds the list under \<^verbatim>\<open>items\<close>, or no such key.
\<close>

type_synonym raw_item = "string \<rightharpoonup> string"

record search_json =
  items :: "raw_item list option"

record mime_part =
  maintype :: string
  subtype :: string
  filename :: string
  payload :: string

record email_message =
  Subject :: string
  From :: "string option"
  To :: "string option"
  content :: string
  attachment :: "mime_part option"

text \<open>
  The conversation of lines 86 to 89 with the mail relay: connect to host and port,
  STARTTLS, login, send the one message.
\<close>

record smtp_session =
  host :: string
  port :: int
  login_user :: "string option"
  login_password :: "string option"
  sent :: email_message

text \<open>
  What the run does to the outside, in order: a GET to the search provider, a line on
  standard output, a file written, a conversation with the mail relay.
\<close>

datatype event =
    is_HttpGet: HttpGet http_request
  | is_Print: Print string
  | is_FileWrite: FileWrite string string
  | is_Smtp: Smtp smtp_session

text \<open>
  The outside world answers. \<open>http_get\<close> is lines 43 to 45 as one answer: the parsed body,
  or the exception of \<^verbatim>\<open>requests.get\<close>, \<^verbatim>\<open>raise_for_status\<close> or
  \<^verbatim>\<open>resp.json\<close>. \<open>utcnow_strftime\<close> is the current UTC time rendered in a format.
  \<open>open_error\<close> is the exception of opening a file for writing, if any,
  \<open>header_parse_error\<close> that of the email library's parser for a header of that name
  and value, if any, and \<open>smtp_error\<close> that of the conversation with the relay (lines
  86 to 89), if any.
\<close>

record world =
  http_get :: "http_request \<Rightarrow> py_exception + search_json"
  utcnow_strftime :: "string \<Rightarrow> string"
  open_error :: "string \<Rightarrow> py_exception option"
  header_parse_error :: "string \<Rightarrow> string option \<Rightarrow> py_exception option"
  smtp_error :: "smtp_session \<Rightarrow> py_exception option"

record state =
  trace :: "event list"
  files :: "string \<rightharpoonup> string"

text \<open>
  How a run of \<open>main\<close> ends: it returns, it raises \<^verbatim>\<open>SystemExit\<close> with a message,
  or an exception leaves it uncaught. The interpreter's exit status is 0 for a return and
  1 for \<^verbatim>\<open>SystemExit\<close> with a text (printed to standard error) and for an
  uncaught exception.
\<close>

datatype outcome = Returned | SystemExit string | Uncaught py_exception

fun exit_status :: "outcome \<Rightarrow> nat" where
  "exit_status Returned = 0"
| "exit_status (SystemExit msg) = 1"
| "exit_status (Uncaught e) = 1"

section \<open>Query runner and extractor\<close>

definition search_request :: "config \<Rightarrow> string \<Rightarrow> int \<Rightarrow> http_request" where
  "search_request cfg query start =
     \<lparr>req_url = ''https://www.googleapis.com/customsearch/v1'',
      req_params =
        [(''key'', of_opt (GOOGLE_API_KEY cfg)),
         (''cx'', of_opt (GOOGLE_CSE_ID cfg)),
         (''q'', PyStr query),
         (''start'', PyInt start),
         (''gl'', PyStr ''in'')],
      req_timeout = 15\<rparr>"

definition google_search ::
  "config \<Rightarrow> world \<Rightarrow> string \<Rightarrow> int \<Rightarrow> state \<Rightarrow> state \<times> (py_exception + search_json)" where
  "google_search cfg w query start st =
     (let req = search_request cfg query start in
      (st\<lparr>trace := trace st @ [HttpGet req]\<rparr>, http_get w req))"

definition extract_results :: "search_json \<Rightarrow> job_record list" where
  "extract_results sj =
     map (\<lambda>item. \<lparr>title = item ''title'', url = item ''link'', snippet = item ''snippet''\<rparr>)
       (case items sj of None \<Rightarrow> [] | Some its \<Rightarrow> its)"

text \<open>
  The loop of lines 97 to 103 over the queries, carrying the state and \<open>all_results\<close>.
  \<^verbatim>\<open>google_search(q)\<close> is called with the default \<open>start = 1\<close>; an exception is
  caught and printed after the text \<^verbatim>\<open>Search error:\<close>. On a response of the
  shape above \<open>extract_results\<close> does not raise, so the exceptions caught are those of
  the search call.
\<close>

fun run_queries ::
  "config \<Rightarrow> world \<Rightarrow> string list \<Rightarrow> state \<times> job_record list \<Rightarrow> state \<times> job_record list" where
  "run_queries cfg w [] (st, all_results) = (st, all_results)"
| "run_queries cfg w (q # qs) (st, all_results) =
     (case google_search cfg w q 1 st of
        (st', Inr data) \<Rightarrow> run_queries cfg w qs (st', all_results @ extract_results data)
      | (st', Inl e) \<Rightarrow>
          run_queries cfg w qs
            (st'\<lparr>trace := trace st' @ [Print (''Search error: '' @ message e)]\<rparr>, all_results))"

section \<open>CSV file\<close>

text \<open>
  \<^verbatim>\<open>csv.DictWriter\<close> with its defaults writes the excel dialect: fields separated by
  a comma, rows ended by carriage return and line feed, \<^verbatim>\<open>None\<close> written as the
  empty text, and a field put in double quotes, with each double quote in it doubled,
  when it holds a comma, a double quote, a carriage return or a line feed. Texts are
  their UTF-8 bytes, as the file holds them.
\<close>

definition dquote :: char where
  "dquote = CHR 0x22"

definition needs_quote :: "string \<Rightarrow> bool" where
  "needs_quote s = (\<exists>c \<in> set s. c = CHR '','' \<or> c = dquote \<or> c = CHR 0x0D \<or> c = CHR 0x0A)"

definition csv_quote :: "string \<Rightarrow> string" where
  "csv_quote s = dquote # concat (map (\<lambda>c. if c = dquote then [dquote, dquote] else [c]) s) @ [dquote]"

fun field_text :: "string option \<Rightarrow> string" where
  "field_text None = []"
| "field_text (Some s) = s"

definition csv_field :: "string option \<Rightarrow> string" where
  "csv_field v = (let s = field_text v in if needs_quote s then csv_quote s else s)"

fun join :: "string \<Rightarrow> string list \<Rightarrow> string" where
  "join sep [] = []"
| "join sep [x] = x"
| "join sep (x # y # ys) = x @ sep @ join sep (y # ys)"

definition csv_row :: "string option list \<Rightarrow> string" where
  "csv_row vs = join '','' (map csv_field vs) @ [CHR 0x0D, CHR 0x0A]"

definition row_of :: "job_record \<Rightarrow> string option list" where
  "row_of r = [title r, url r, snippet r]"

definition csv_text :: "job_record list \<Rightarrow> string" where
  "csv_text results =
     csv_row [Some ''title'', Some ''url'', Some ''snippet''] @ concat (map (\<lambda>r. csv_row (row_of r)) results)"

definition save_csv ::
  "world \<Rightarrow> job_record list \<Rightarrow> string \<Rightarrow> state \<Rightarrow> state \<times> (py_exception + unit)" where
  "save_csv w results fname st =
     (case open_error w fname of
        Some e \<Rightarrow> (st, Inl e)
      | None \<Rightarrow>
          (st\<lparr>trace := trace st @ [FileWrite fname (csv_text results)],
              files := (files st)(fname \<mapsto> csv_text results)\<rparr>, Inr ()))"

section \<open>Lines of a text\<close>

text \<open>
  The lines of a byte text, each with its ending: a line ends after a line feed, after a
  carriage return that no line feed follows, or at the end of the text. These are the
  lines of \<^verbatim>\<open>bytes.splitlines\<close> with the endings kept, and of a file opened with
  \<^verbatim>\<open>newline=''\<close>.
\<close>

definition line_ends :: "char \<Rightarrow> string \<Rightarrow> bool" where
  "line_ends c cs =
     (c = CHR 0x0A \<or> (c = CHR 0x0D \<and> (case cs of [] \<Rightarrow> True | d # ds \<Rightarrow> d \<noteq> CHR 0x0A)))"

fun lines_of :: "string \<Rightarrow> string list" where
  "lines_of [] = []"
| "lines_of (c # cs) =
     (if line_ends c cs then [c] # lines_of cs
      else (case lines_of cs of [] \<Rightarrow> [[c]] | l # ls \<Rightarrow> (c # l) # ls))"

text \<open>A line without its ending.\<close>

fun strip_eol :: "string \<Rightarrow> string" where
  "strip_eol [] = []"
| "strip_eol (c # cs) =
     (if cs = [] \<and> (c = CHR 0x0A \<or> c = CHR 0x0D) then []
      else if cs = [CHR 0x0A] \<and> c = CHR 0x0D then []
      else c # strip_eol cs)"

text \<open>
  The length of the line boundary of \<^verbatim>\<open>str.splitlines\<close> at the head of a text, 0
  when the text does not start with one. On the UTF-8 bytes of the text the boundaries
  are line feed, carriage return (with a line feed that follows it), vertical tab, form
  feed, the separators 1C, 1D and 1E, and the encodings of U+0085, U+2028 and U+2029.
\<close>

fun break_len :: "string \<Rightarrow> nat" where
  "break_len [] = 0"
| "break_len (c # cs) =
     (if c = CHR 0x0D then (case cs of [] \<Rightarrow> 1 | d # ds \<Rightarrow> if d = CHR 0x0A then 2 else 1)
      else if c = CHR 0x0A \<or> c = CHR 0x0B \<or> c = CHR 0x0C \<or> c = CHR 0x1C \<or> c = CHR 0x1D
              \<or> c = CHR 0x1E then 1
      else if c = CHR 0xC2 then (case cs of [] \<Rightarrow> 0 | d # ds \<Rightarrow> if d = CHR 0x85 then 2 else 0)
      else if c = CHR 0xE2 then
        (case cs of
           d # e # es \<Rightarrow> if d = CHR 0x80 \<and> (e = CHR 0xA8 \<or> e = CHR 0xA9) then 3 else 0
         | _ \<Rightarrow> 0)
      else 0)"

text \<open>
  \<^verbatim>\<open>len(s.splitlines()) > 1\<close>: some line boundary of the text has text after it.
\<close>

fun multi_line :: "string \<Rightarrow> bool" where
  "multi_line [] = False"
| "multi_line (c # cs) =
     (if break_len (c # cs) = 0 then multi_line cs
      else drop (break_len (c # cs) - 1) cs \<noteq> [])"

section \<open>Email\<close>

definition basename :: "string \<Rightarrow> string" where
  "basename p = rev (takeWhile (\<lambda>c. c \<noteq> CHR ''/'') (rev p))"

definition session_with :: "config \<Rightarrow> email_message \<Rightarrow> smtp_session" where
  "session_with cfg msg =
     \<lparr>host = SMTP_SERVER cfg, port = SMTP_PORT cfg, login_user = FROM_EMAIL cfg,
      login_password = SMTP_PASS cfg, sent = msg\<rparr>"

definition smtp_deliver ::
  "config \<Rightarrow> world \<Rightarrow> email_message \<Rightarrow> state \<Rightarrow> state \<times> (py_exception + unit)" where
  "smtp_deliver cfg w msg st =
     (let s = session_with cfg msg;
          st' = st\<lparr>trace := trace st @ [Smtp s]\<rparr>
      in case smtp_error w s of
           Some e \<Rightarrow> (st', Inl e)
         | None \<Rightarrow> (st', Inr ()))"

text \<open>
  Storing a header, \<^verbatim>\<open>msg[name] = value\<close>: the message's policy raises
  \<^verbatim>\<open>ValueError\<close> for a text of more than one line (\<^verbatim>\<open>None\<close> is no text and
  passes); otherwise the value goes to the library's parser for that header, which may
  raise as well. The result \<open>None\<close> says that the header is stored.
\<close>

definition header_line_error :: string where
  "header_line_error = ''Header values may not contain linefeed or carriage return characters''"

fun single_line :: "string option \<Rightarrow> bool" where
  "single_line None = True"
| "single_line (Some s) = (\<not> multi_line s)"

definition set_header :: "world \<Rightarrow> string \<Rightarrow> string option \<Rightarrow> py_exception option" where
  "set_header w name v =
     (if \<not> single_line v then Some (PyException header_line_error)
      else header_parse_error w name v)"

text \<open>
  The text that \<^verbatim>\<open>set_content\<close> stores for a body: the lines of the body without
  their endings, each followed by a line feed; an empty body gives one line feed.
\<close>

definition body_text :: "string \<Rightarrow> string" where
  "body_text body = join [CHR 0x0A] (map strip_eol (lines_of body)) @ [CHR 0x0A]"

text \<open>
  \<open>send_email\<close>, lines 74 to 89: the three headers in the order of the source, the body,
  the attachment read back from the file system (a path that names no file raises), then
  the conversation with the relay. \<open>main\<close> calls it only after the configuration check,
  so sender, recipient and password are texts there.
\<close>

definition no_such_file :: "string \<Rightarrow> string" where
  "no_such_file path =
     ''[Errno 2] No such file or directory: '' @ [CHR 0x27] @ path @ [CHR 0x27]"

definition send_email ::
  "config \<Rightarrow> world \<Rightarrow> string \<Rightarrow> string \<Rightarrow> string option \<Rightarrow> state \<Rightarrow> state \<times> (py_exception + unit)" where
  "send_email cfg w subject body attachment_path st =
     (case set_header w ''Subject'' (Some subject) of
        Some e \<Rightarrow> (st, Inl e)
      | None \<Rightarrow>
     (case set_header w ''From'' (FROM_EMAIL cfg) of
        Some e \<Rightarrow> (st, Inl e)
      | None \<Rightarrow>
     (case set_header w ''To'' (RECIPIENT cfg) of
        Some e \<Rightarrow> (st, Inl e)
      | None \<Rightarrow>
     (let msg = \<lparr>Subject = subject, From = FROM_EMAIL cfg, To = RECIPIENT cfg,
                 content = body_text body, attachment = None\<rparr>
      in case attachment_path of
           None \<Rightarrow> smtp_deliver cfg w msg st
         | Some path \<Rightarrow>
             if path = [] then smtp_deliver cfg w msg st
             else (case files st path of
                     None \<Rightarrow> (st, Inl (PyException (no_such_file path)))
                   | Some bytes \<Rightarrow>
                       smtp_deliver cfg w
                         (msg\<lparr>attachment := Some \<lparr>maintype = ''application'', subtype = ''csv'',
                                                  filename = basename path, payload = bytes\<rparr>\<rparr>)
                         st)))))"

section \<open>Main flow\<close>

text \<open>The em dash of the subject lines and of the report's heading, as UTF-8 bytes.\<close>

definition em_dash :: string where
  "em_dash = [CHR 0xE2, CHR 0x80, CHR 0x94]"

text \<open>Python's decimal rendering of a natural number.\<close>

fun str_nat :: "nat \<Rightarrow> string" where
  "str_nat n =
     (if n < 10 then [''0123456789'' ! n]
      else str_nat (n div 10) @ [''0123456789'' ! (n mod 10)])"

text \<open>An optional text inside an f-string: \<^verbatim>\<open>None\<close> is rendered as its name.\<close>

fun fmt_opt :: "string option \<Rightarrow> string" where
  "fmt_opt None = ''None''"
| "fmt_opt (Some s) = s"

definition top_line :: "nat \<times> job_record \<Rightarrow> string" where
  "top_line ir =
     (case ir of (i, r) \<Rightarrow>
        str_nat i @ ''. '' @ fmt_opt (title r) @ ''\<newline>   '' @ fmt_opt (url r) @
        ''\<newline>   '' @ fmt_opt (snippet r) @ ''\<newline>'')"

definition report_body :: "job_record list \<Rightarrow> string" where
  "report_body results =
     ''Daily Jobs Report '' @ em_dash @ '' Entry-level Cloud/DevOps (AWS)\<newline>\<newline>'' @
     join ''\<newline>'' (map top_line (List.enumerate 1 (take 10 results)))"

definition missing_message :: string where
  "missing_message =
     ''Missing required environment variables: GOOGLE_API_KEY, GOOGLE_CSE_ID, RECIPIENT_EMAIL, SMTP_USER, SMTP_PASS''"

definition main :: "config \<Rightarrow> world \<Rightarrow> (string \<rightharpoonup> string) \<Rightarrow> state \<times> outcome" where
  "main cfg w fs =
     (if \<not> truthy (GOOGLE_API_KEY cfg) \<or> \<not> truthy (GOOGLE_CSE_ID cfg) \<or> \<not> truthy (RECIPIENT cfg)
         \<or> \<not> truthy (FROM_EMAIL cfg) \<or> \<not> truthy (SMTP_PASS cfg)
      then (\<lparr>trace = [], files = fs\<rparr>, SystemExit missing_message)
      else
        (case run_queries cfg w QUERIES (\<lparr>trace = [], files = fs\<rparr>, []) of
           (st1, all_results) \<Rightarrow>
             (let results = dedupe all_results in
              if results = [] then
                (let body = ''No results found on '' @ utcnow_strftime w ''%Y-%m-%d %H:%M UTC'' in
                 case send_email cfg w (''Daily Jobs Report '' @ em_dash @ '' No Results'') body None st1 of
                   (st2, Inl e) \<Rightarrow> (st2, Uncaught e)
                 | (st2, Inr u) \<Rightarrow> (st2, Returned))
              else
                (let csvfile = ''daily_jobs_google.csv'' in
                 case save_csv w results csvfile st1 of
                   (st2, Inl e) \<Rightarrow> (st2, Uncaught e)
                 | (st2, Inr u) \<Rightarrow>
                     (let body = report_body results;
                          subject = ''Daily Jobs Report '' @ em_dash @ '' '' @
                                    utcnow_strftime w ''%Y-%m-%d'' @ '' (Google Search)''
                      in case send_email cfg w subject body (Some csvfile) st2 of
                           (st3, Inl e) \<Rightarrow> (st3, Uncaught e)
                         | (st3, Inr u') \<Rightarrow>
                             (st3\<lparr>trace := trace st3 @ [Print ''Report sent.'']\<rparr>, Returned))))))"

section \<open>Reading a CSV file back\<close>

text \<open>
  The repository writes the CSV file and never parses one. Reading the file back as plain
  rows is \<^verbatim>\<open>csv.reader\<close> of the same library on a file opened with
  \<^verbatim>\<open>newline=''\<close>, as the library asks for: the reader takes the file line by line
  (a line ends after a line feed, after a carriage return that no line feed follows, or at
  the end of the file; the line keeps its ending) and runs the state machine of the excel
  dialect over the characters of each line, followed by an end-of-line mark. The states
  that only an escape character reaches are left out, since the excel dialect has none.
  The reader's limit on the length of a field (\<^verbatim>\<open>csv.field_size_limit\<close>) is not
  part of this model.
\<close>

datatype parse_state =
  START_RECORD | START_FIELD | IN_FIELD | IN_QUOTED_FIELD | QUOTE_IN_QUOTED_FIELD | EAT_CRNL

record reader =
  pst :: parse_state
  field_buf :: string
  fields_done :: "string list"

definition parse_reset :: reader where
  "parse_reset = \<lparr>pst = START_RECORD, field_buf = [], fields_done = []\<rparr>"

definition parse_save_field :: "reader \<Rightarrow> reader" where
  "parse_save_field rd = rd\<lparr>fields_done := fields_done rd @ [field_buf rd], field_buf := []\<rparr>"

definition parse_add_char :: "reader \<Rightarrow> char \<Rightarrow> reader" where
  "parse_add_char rd c = rd\<lparr>field_buf := field_buf rd @ [c]\<rparr>"

definition is_newline :: "char \<Rightarrow> bool" where
  "is_newline c = (c = CHR 0x0A \<or> c = CHR 0x0D)"

text \<open>
  The branch of the state machine for the start of a field, which the start of a record
  falls through to. The input is a character, or \<open>None\<close> for the end-of-line mark.
\<close>

definition start_field :: "reader \<Rightarrow> char option \<Rightarrow> reader" where
  "start_field rd c =
     (case c of
        None \<Rightarrow> (parse_save_field rd)\<lparr>pst := START_RECORD\<rparr>
      | Some ch \<Rightarrow>
          if is_newline ch then (parse_save_field rd)\<lparr>pst := EAT_CRNL\<rparr>
          else if ch = dquote then rd\<lparr>pst := IN_QUOTED_FIELD\<rparr>
          else if ch = CHR '','' then (parse_save_field rd)\<lparr>pst := START_FIELD\<rparr>
          else (parse_add_char rd ch)\<lparr>pst := IN_FIELD\<rparr>)"

definition newline_error :: string where
  "newline_error =
     ''new-line character seen in unquoted field - do you need to open the file with newline='' @
     [CHR 0x27, CHR 0x27] @ ''?''"

definition parse_process_char :: "reader \<Rightarrow> char option \<Rightarrow> py_exception + reader" where
  "parse_process_char rd c =
     (case pst rd of
        START_RECORD \<Rightarrow>
          (case c of
             None \<Rightarrow> Inr rd
           | Some ch \<Rightarrow>
               if is_newline ch then Inr (rd\<lparr>pst := EAT_CRNL\<rparr>) else Inr (start_field rd c))
      | START_FIELD \<Rightarrow> Inr (start_field rd c)
      | IN_FIELD \<Rightarrow>
          (case c of
             None \<Rightarrow> Inr ((parse_save_field rd)\<lparr>pst := START_RECORD\<rparr>)
           | Some ch \<Rightarrow>
               if is_newline ch then Inr ((parse_save_field rd)\<lparr>pst := EAT_CRNL\<rparr>)
               else if ch = CHR '','' then Inr ((parse_save_field rd)\<lparr>pst := START_FIELD\<rparr>)
               else Inr (parse_add_char rd ch))
      | IN_QUOTED_FIELD \<Rightarrow>
          (case c of
             None \<Rightarrow> Inr rd
           | Some ch \<Rightarrow>
               if ch = dquote then Inr (rd\<lparr>pst := QUOTE_IN_QUOTED_FIELD\<rparr>)
               else Inr (parse_add_char rd ch))
      | QUOTE_IN_QUOTED_FIELD \<Rightarrow>
          (case c of
             None \<Rightarrow> Inr ((parse_save_field rd)\<lparr>pst := START_RECORD\<rparr>)
           | Some ch \<Rightarrow>
               if ch = dquote then Inr ((parse_add_char rd ch)\<lparr>pst := IN_QUOTED_FIELD\<rparr>)
               else if ch = CHR '','' then Inr ((parse_save_field rd)\<lparr>pst := START_FIELD\<rparr>)
               else if is_newline ch then Inr ((parse_save_field rd)\<lparr>pst := EAT_CRNL\<rparr>)
               else Inr ((parse_add_char rd ch)\<lparr>pst := IN_FIELD\<rparr>))
      | EAT_CRNL \<Rightarrow>
          (case c of
             None \<Rightarrow> Inr (rd\<lparr>pst := START_RECORD\<rparr>)
           | Some ch \<Rightarrow>
               if is_newline ch then Inr rd
               else Inl (PyException newline_error)))"

text \<open>One line: its characters, then the end-of-line mark.\<close>

fun feed_line :: "reader \<Rightarrow> string \<Rightarrow> py_exception + reader" where
  "feed_line rd [] = parse_process_char rd None"
| "feed_line rd (c # cs) =
     (case parse_process_char rd (Some c) of
        Inl e \<Rightarrow> Inl e
      | Inr rd' \<Rightarrow> feed_line rd' cs)"

definition cons_row :: "string list \<Rightarrow> py_exception + string list list \<Rightarrow> py_exception + string list list" where
  "cons_row row rest = (case rest of Inl e \<Rightarrow> Inl e | Inr rows \<Rightarrow> Inr (row # rows))"

text \<open>
  The rows of the remaining lines. A row is complete when a line ends with the machine
  back at the start of a record; the machine is reset for the next row. When the lines run
  out inside a row, the row read so far is returned.
\<close>

fun read_rows :: "reader \<Rightarrow> string list \<Rightarrow> py_exception + string list list" where
  "read_rows rd [] =
     (if field_buf rd \<noteq> [] \<or> pst rd = IN_QUOTED_FIELD
      then Inr [fields_done (parse_save_field rd)] else Inr [])"
| "read_rows rd (l # ls) =
     (case feed_line rd l of
        Inl e \<Rightarrow> Inl e
      | Inr rd' \<Rightarrow>
          if pst rd' = START_RECORD then cons_row (fields_done rd') (read_rows parse_reset ls)
          else read_rows rd' ls)"

definition csv_reader :: "string \<Rightarrow> py_exception + string list list" where
  "csv_reader text = read_rows parse_reset (lines_of text)"

text \<open>The content of a quoted field as the writer puts it: each double quote doubled.\<close>

definition esc :: "string \<Rightarrow> string" where
  "esc s = concat (map (\<lambda>c. if c = dquote then [dquote, dquote] else [c]) s)"

section \<open>Sample configurations and worlds\<close>

definition cfg_ok :: config where
  "cfg_ok = \<lparr>GOOGLE_API_KEY = Some ''key'', GOOGLE_CSE_ID = Some ''cx'',
             RECIPIENT = Some ''me@example.org'', FROM_EMAIL = Some ''bot@example.org'',
             SMTP_SERVER = ''smtp.gmail.com'', SMTP_PORT = 587, SMTP_PASS = Some ''secret''\<rparr>"

definition cfg_missing :: config where
  "cfg_missing = cfg_ok\<lparr>GOOGLE_CSE_ID := None, SMTP_PASS := Some []\<rparr>"

definition clock :: "string \<Rightarrow> string" where
  "clock fmt = (if fmt = ''%Y-%m-%d'' then ''2024-01-02'' else ''2024-01-02 03:04 UTC'')"

text \<open>A world where every search fails, and one where only the first query fails.\<close>

definition world_down :: world where
  "world_down = \<lparr>http_get = (\<lambda>req. Inl (PyException ''network down'')),
                 utcnow_strftime = clock,
                 open_error = (\<lambda>f. None), header_parse_error = (\<lambda>n v. None),
                  smtp_error = (\<lambda>s. None)\<rparr>"

definition item_sre :: raw_item where
  "item_sre = [''title'' \<mapsto> ''SRE'', ''link'' \<mapsto> ''https://x.com/b'']"

definition item_cloud :: raw_item where
  "item_cloud = [''link'' \<mapsto> ''https://x.com/a'', ''snippet'' \<mapsto> ''first'']"

definition rec_untitled :: job_record where
  "rec_untitled = \<lparr>title = None, url = Some ''https://x.com/a'', snippet = Some ''first''\<rparr>"

definition world_mixed :: world where
  "world_mixed = \<lparr>http_get = (\<lambda>req.
                     if req = search_request cfg_ok (QUERIES ! 0) 1
                     then Inl (PyException ''503 Server Error'')
                     else if req = search_request cfg_ok (QUERIES ! 1) 1
                     then Inr \<lparr>items = Some [item_sre, item_cloud]\<rparr>
                     else Inr \<lparr>items = None\<rparr>),
                  utcnow_strftime = clock,
                  open_error = (\<lambda>f. None), header_parse_error = (\<lambda>n v. None),
                  smtp_error = (\<lambda>s. None)\<rparr>"

text \<open>A record whose fields need quoting: a comma, double quotes, a line break.\<close>

definition rec_tricky :: job_record where
  \<open>rec_tricky = \<lparr>title = Some ''Dev, "Ops"'', url = Some ''https://x.com/c'',
                 snippet = Some [CHR ''a'', CHR 0x0D, CHR 0x0A, CHR ''b'']\<rparr>\<close>

section \<open>Properties of the deduplicator\<close>

lemma dedupe_loop_out: "dedupe_loop rs seen out = out @ dedupe_loop rs seen []"
proof (induction rs arbitrary: seen out)
  case Nil
  show ?case by simp
next
  case (Cons r rs)
  show ?case
  proof (cases "truthy (url r) \<and> url r \<notin> seen")
    case True
    have "dedupe_loop (r # rs) seen out = dedupe_loop rs (insert (url r) seen) (out @ [r])"
      using True by (simp add: Let_def)
    also have "\<dots> = (out @ [r]) @ dedupe_loop rs (insert (url r) seen) []"
      by (rule Cons.IH)
    also have "\<dots> = out @ dedupe_loop rs (insert (url r) seen) [r]"
      using Cons.IH [of "insert (url r) seen" "[r]"] by simp
    finally show ?thesis using True by (simp add: Let_def)
  next
    case False
    then show ?thesis using Cons.IH [of seen out] by (auto simp: Let_def)
  qed
qed

lemma dedupe_loop_Cons:
  "dedupe_loop (r # rs) seen [] =
     (if truthy (url r) \<and> url r \<notin> seen
      then r # dedupe_loop rs (insert (url r) seen) []
      else dedupe_loop rs seen [])"
  using dedupe_loop_out [of rs "insert (url r) seen" "[r]"] by (simp add: Let_def)

declare dedupe_loop.simps(2) [simp del]

lemma dedupe_loop_member:
  "x \<in> set (dedupe_loop rs seen []) \<Longrightarrow> x \<in> set rs \<and> truthy (url x) \<and> url x \<notin> seen"
proof (induction rs arbitrary: seen)
  case Nil
  then show ?case by simp
next
  case (Cons r rs)
  then show ?case
    by (fastforce simp: dedupe_loop_Cons split: if_splits)
qed

lemma dedupe_loop_distinct: "distinct (map url (dedupe_loop rs seen []))"
proof (induction rs arbitrary: seen)
  case Nil
  show ?case by simp
next
  case (Cons r rs)
  have "url r \<notin> url ` set (dedupe_loop rs (insert (url r) seen) [])"
  proof
    assume "url r \<in> url ` set (dedupe_loop rs (insert (url r) seen) [])"
    then obtain x where "x \<in> set (dedupe_loop rs (insert (url r) seen) [])" and "url x = url r"
      by auto
    then show False
      using dedupe_loop_member [of x rs "insert (url r) seen"] by simp
  qed
  then show ?case
    by (simp add: dedupe_loop_Cons Cons.IH)
qed

lemma first_pos_Cons:
  "first_pos (x # xs) r = (if x = r then 0 else Suc (first_pos xs r))"
  by (simp add: first_pos_def)

lemma dedupe_loop_order:
  assumes "A \<in> set (dedupe_loop rs seen [])" and "B \<in> set (dedupe_loop rs seen [])"
    and "url A \<noteq> url B" and "first_pos rs A < first_pos rs B"
  shows "first_pos (dedupe_loop rs seen []) A < first_pos (dedupe_loop rs seen []) B"
  using assms
proof (induction rs arbitrary: seen)
  case Nil
  then show ?case by simp
next
  case (Cons r rs)
  show ?case
  proof (cases "truthy (url r) \<and> url r \<notin> seen")
    case True
    let ?D = "dedupe_loop rs (insert (url r) seen) []"
    have D: "dedupe_loop (r # rs) seen [] = r # ?D"
      using True by (simp add: dedupe_loop_Cons)
    show ?thesis
    proof (cases "A = r")
      case True
      then have "B \<noteq> r" using Cons.prems(3) by auto
      then show ?thesis using True D by (simp add: first_pos_Cons)
    next
      case False
      then have Br: "B \<noteq> r" using Cons.prems(4) by (auto simp: first_pos_Cons split: if_splits)
      have "A \<in> set ?D" and "B \<in> set ?D"
        using Cons.prems(1,2) D False Br by auto
      moreover have "first_pos rs A < first_pos rs B"
        using Cons.prems(4) False Br by (simp add: first_pos_Cons)
      ultimately have "first_pos ?D A < first_pos ?D B"
        using Cons.IH Cons.prems(3) by blast
      then show ?thesis using D False Br by (simp add: first_pos_Cons)
    qed
  next
    case False
    have D: "dedupe_loop (r # rs) seen [] = dedupe_loop rs seen []"
      using False by (auto simp: dedupe_loop_Cons)
    have "A \<noteq> r" and "B \<noteq> r"
      using Cons.prems(1,2) D False dedupe_loop_member [of _ rs seen] by auto
    then show ?thesis
      using Cons.prems Cons.IH [of seen] D by (simp add: first_pos_Cons)
  qed
qed

lemma dedupe_loop_subseq: "subseq (dedupe_loop rs seen []) rs"
proof (induction rs arbitrary: seen)
  case Nil
  show ?case by simp
next
  case (Cons r rs)
  show ?case
  proof (cases "truthy (url r) \<and> url r \<notin> seen")
    case True
    then show ?thesis
      using Cons.IH [of "insert (url r) seen"] by (simp add: dedupe_loop_Cons)
  next
    case False
    then show ?thesis
      using Cons.IH [of seen] by (auto simp: dedupe_loop_Cons)
  qed
qed

lemma dedupe_loop_no_seen:
  "k \<in> seen \<Longrightarrow> filter (\<lambda>x. url x = k) (dedupe_loop rs seen []) = []"
  using dedupe_loop_member [of _ rs seen] by (auto simp: filter_empty_conv)

lemma dedupe_loop_first:
  assumes "find (\<lambda>x. url x = Some u) rs = Some r" and "u \<noteq> []" and "Some u \<notin> seen"
  shows "filter (\<lambda>x. url x = Some u) (dedupe_loop rs seen []) = [r]"
  using assms
proof (induction rs arbitrary: seen)
  case Nil
  then show ?case by simp
next
  case (Cons x rs)
  show ?case
  proof (cases "url x = Some u")
    case True
    then have "r = x" using Cons.prems(1) by simp
    moreover have "dedupe_loop (x # rs) seen [] = x # dedupe_loop rs (insert (Some u) seen) []"
      using True Cons.prems(2,3) by (simp add: dedupe_loop_Cons)
    moreover have "filter (\<lambda>y. url y = Some u) (dedupe_loop rs (insert (Some u) seen) []) = []"
      by (rule dedupe_loop_no_seen) simp
    ultimately show ?thesis using True by simp
  next
    case False
    then have f: "find (\<lambda>y. url y = Some u) rs = Some r" using Cons.prems(1) by simp
    show ?thesis
    proof (cases "truthy (url x) \<and> url x \<notin> seen")
      case True
      have "Some u \<notin> insert (url x) seen" using False Cons.prems(3) by auto
      then have "filter (\<lambda>y. url y = Some u) (dedupe_loop rs (insert (url x) seen) []) = [r]"
        using Cons.IH f Cons.prems(2) by blast
      then show ?thesis using True False by (simp add: dedupe_loop_Cons)
    next
      case nk: False
      have "filter (\<lambda>y. url y = Some u) (dedupe_loop rs seen []) = [r]"
        using Cons.IH f Cons.prems(2,3) by blast
      then show ?thesis using nk by (auto simp: dedupe_loop_Cons)
    qed
  qed
qed

lemma dedupe_loop_idem:
  "dedupe_loop (dedupe_loop rs seen []) seen [] = dedupe_loop rs seen []"
proof (induction rs arbitrary: seen)
  case Nil
  show ?case by simp
next
  case (Cons r rs)
  show ?case
  proof (cases "truthy (url r) \<and> url r \<notin> seen")
    case True
    then show ?thesis
      using Cons.IH [of "insert (url r) seen"] by (simp add: dedupe_loop_Cons)
  next
    case False
    then show ?thesis
      using Cons.IH [of seen] by (auto simp: dedupe_loop_Cons)
  qed
qed

text \<open>
  C1. The output of \<open>dedupe\<close> holds no two records with the same url (and every url in it
  is non-empty, see C8). It keeps the order of the input: the output is the input with
  records left out (\<open>subseq\<close>), and the records kept are the first occurrences of their
  urls, so of two output records with different urls the one that appears first in the
  input is first in the output; ``appears before'' compares the positions where the two
  records first appear.
\<close>

theorem dedupe_unique_url_first_order:
  "(\<forall>i j. i < j \<and> j < length (dedupe xs) \<longrightarrow> url (dedupe xs ! i) \<noteq> url (dedupe xs ! j)) \<and>
   subseq (dedupe xs) xs \<and>
   (\<forall>A B. A \<in> set (dedupe xs) \<and> B \<in> set (dedupe xs) \<and> url A \<noteq> url B \<and>
          first_pos xs A < first_pos xs B \<longrightarrow>
          first_pos (dedupe xs) A < first_pos (dedupe xs) B)"
proof (intro conjI)
  have d: "distinct (map url (dedupe xs))"
    unfolding dedupe_def by (rule dedupe_loop_distinct)
  show "\<forall>i j. i < j \<and> j < length (dedupe xs) \<longrightarrow> url (dedupe xs ! i) \<noteq> url (dedupe xs ! j)"
  proof (intro allI impI)
    fix i j
    assume ij: "i < j \<and> j < length (dedupe xs)"
    then have "i < length (map url (dedupe xs))" and "j < length (map url (dedupe xs))"
      and "i \<noteq> j" by simp_all
    then have "map url (dedupe xs) ! i \<noteq> map url (dedupe xs) ! j"
      using d nth_eq_iff_index_eq by blast
    then show "url (dedupe xs ! i) \<noteq> url (dedupe xs ! j)"
      using ij by simp
  qed
next
  show "subseq (dedupe xs) xs"
    unfolding dedupe_def by (rule dedupe_loop_subseq)
next
  show "\<forall>A B. A \<in> set (dedupe xs) \<and> B \<in> set (dedupe xs) \<and> url A \<noteq> url B \<and>
          first_pos xs A < first_pos xs B \<longrightarrow>
          first_pos (dedupe xs) A < first_pos (dedupe xs) B"
    unfolding dedupe_def using dedupe_loop_order by blast
qed

theorem dedupe_unique_url_first_order_witness:
  "dedupe [rec_b, rec_a1, rec_nourl, rec_a2, rec_b] = [rec_b, rec_a1] \<and>
   url ([rec_b, rec_a1] ! 0) \<noteq> url ([rec_b, rec_a1] ! 1) \<and>
   first_pos [rec_b, rec_a1, rec_nourl, rec_a2, rec_b] rec_b
     < first_pos [rec_b, rec_a1, rec_nourl, rec_a2, rec_b] rec_a1 \<and>
   first_pos (dedupe [rec_b, rec_a1, rec_nourl, rec_a2, rec_b]) rec_b
     < first_pos (dedupe [rec_b, rec_a1, rec_nourl, rec_a2, rec_b]) rec_a1"
proof -
  let ?xs = "[rec_b, rec_a1, rec_nourl, rec_a2, rec_b]"
  have out: "dedupe ?xs = [rec_b, rec_a1]"
    by (simp add: dedupe_def dedupe_loop_Cons rec_a1_def rec_a2_def rec_b_def rec_nourl_def)
  have pos: "first_pos ?xs rec_b < first_pos ?xs rec_a1"
    by (simp add: first_pos_def rec_a1_def rec_b_def)
  have u: "url rec_b \<noteq> url rec_a1"
    by (simp add: rec_a1_def rec_b_def)
  have len: "(0::nat) < 1 \<and> 1 < length (dedupe ?xs)"
    using out by simp
  have mem: "rec_b \<in> set (dedupe ?xs) \<and> rec_a1 \<in> set (dedupe ?xs)"
    using out by simp
  from dedupe_unique_url_first_order [of ?xs] len mem u pos
  have "url (dedupe ?xs ! 0) \<noteq> url (dedupe ?xs ! 1)"
    and "first_pos (dedupe ?xs) rec_b < first_pos (dedupe ?xs) rec_a1"
    by blast+
  then show ?thesis using out pos by simp
qed

text \<open>
  C2, as the spec states it, fails: a record whose url is absent is in the input once
  and in the output not at all.
\<close>

theorem dedupe_keeps_no_url_records_counterexample:
  "\<not> truthy (url rec_nourl) \<and>
   occurrences [rec_nourl, rec_a1, rec_nourl] rec_nourl = 2 \<and>
   occurrences (dedupe [rec_nourl, rec_a1, rec_nourl]) rec_nourl = 0"
  by (simp add: occurrences_def dedupe_def dedupe_loop_Cons rec_nourl_def rec_a1_def)

text \<open>
  C2, amended. The guard \<^verbatim>\<open>if key and ...\<close> skips every record whose url is absent or
  empty: such a record occurs in the output zero times, however often it occurs in the
  input.
\<close>

theorem dedupe_drops_no_url_records:
  "\<not> truthy (url r) \<Longrightarrow> occurrences (dedupe xs) r = 0"
  unfolding occurrences_def dedupe_def
  using dedupe_loop_member [of r xs "{}"] by (auto simp: filter_empty_conv)

theorem dedupe_drops_no_url_records_witness:
  "\<not> truthy (url rec_emptyurl) \<and>
   occurrences [rec_emptyurl, rec_b, rec_emptyurl] rec_emptyurl = 2 \<and>
   occurrences (dedupe [rec_emptyurl, rec_b, rec_emptyurl]) rec_emptyurl = 0"
proof -
  have h: "\<not> truthy (url rec_emptyurl)"
    by (simp add: rec_emptyurl_def)
  have "occurrences [rec_emptyurl, rec_b, rec_emptyurl] rec_emptyurl = 2"
    by (simp add: occurrences_def rec_emptyurl_def rec_b_def)
  then show ?thesis
    using h dedupe_drops_no_url_records [OF h, of "[rec_emptyurl, rec_b, rec_emptyurl]"]
    by simp
qed

text \<open>
  C7. When records of the input share a non-empty url \<open>u\<close>, the output holds exactly one
  record with that url, and it is the first record of the input with it (\<open>find\<close> returns
  the first match): title, url and snippet are those of the first occurrence. The
  statement covers every url that occurs at least once, so also those that occur twice
  or more.
\<close>

theorem dedupe_keeps_first_occurrence:
  "u \<noteq> [] \<Longrightarrow> find (\<lambda>x. url x = Some u) xs = Some r \<Longrightarrow>
   filter (\<lambda>x. url x = Some u) (dedupe xs) = [r]"
  unfolding dedupe_def by (rule dedupe_loop_first) simp_all

theorem dedupe_keeps_first_occurrence_witness:
  "''https://x.com/a'' \<noteq> [] \<and>
   find (\<lambda>x. url x = Some ''https://x.com/a'') [rec_b, rec_a1, rec_a2, rec_a1] = Some rec_a1 \<and>
   length (filter (\<lambda>x. url x = Some ''https://x.com/a'') [rec_b, rec_a1, rec_a2, rec_a1]) = 3 \<and>
   filter (\<lambda>x. url x = Some ''https://x.com/a'') (dedupe [rec_b, rec_a1, rec_a2, rec_a1])
     = [rec_a1] \<and>
   title rec_a1 = Some ''Cloud Engineer'' \<and> snippet rec_a1 = Some ''first''"
proof -
  have n: "''https://x.com/a'' \<noteq> []" by simp
  have f: "find (\<lambda>x. url x = Some ''https://x.com/a'') [rec_b, rec_a1, rec_a2, rec_a1]
             = Some rec_a1"
    by (simp add: rec_a1_def rec_b_def)
  have l: "length (filter (\<lambda>x. url x = Some ''https://x.com/a'')
             [rec_b, rec_a1, rec_a2, rec_a1]) = 3"
    by (simp add: rec_a1_def rec_a2_def rec_b_def)
  show ?thesis
    using n f l dedupe_keeps_first_occurrence [OF n f] by (simp add: rec_a1_def)
qed

text \<open>
  C8. Every record of the output has a non-empty url: a record whose url is absent,
  \<^verbatim>\<open>None\<close> or the empty string is never in the output.
\<close>

theorem dedupe_output_has_url:
  "r \<in> set (dedupe xs) \<Longrightarrow> (\<exists>u. url r = Some u \<and> u \<noteq> [])"
proof -
  assume "r \<in> set (dedupe xs)"
  then have "truthy (url r)"
    unfolding dedupe_def using dedupe_loop_member [of r xs "{}"] by simp
  then show ?thesis by (cases "url r") simp_all
qed

theorem dedupe_output_has_url_witness:
  "rec_b \<in> set (dedupe [rec_nourl, rec_b, rec_emptyurl]) \<and>
   (\<exists>u. url rec_b = Some u \<and> u \<noteq> [])"
proof -
  have m: "rec_b \<in> set (dedupe [rec_nourl, rec_b, rec_emptyurl])"
    by (simp add: dedupe_def dedupe_loop_Cons rec_nourl_def rec_b_def rec_emptyurl_def)
  show ?thesis
    using m dedupe_output_has_url [OF m] by simp
qed

text \<open>
  C9. \<open>dedupe\<close> is idempotent: run on its own output it returns that output.
\<close>

theorem dedupe_idempotent: "dedupe (dedupe xs) = dedupe xs"
  unfolding dedupe_def by (rule dedupe_loop_idem)

section \<open>Properties of the pipeline\<close>

lemma run_queries_append:
  "run_queries cfg w (qs1 @ qs2) s = run_queries cfg w qs2 (run_queries cfg w qs1 s)"
proof (induction qs1 arbitrary: s)
  case Nil
  show ?case by (cases s) simp
next
  case (Cons q qs1)
  obtain st acc where s: "s = (st, acc)" by (cases s)
  show ?case
    unfolding s by (simp add: Cons.IH google_search_def Let_def split: sum.splits)
qed

lemma run_queries_files: "files (fst (run_queries cfg w qs (st, acc))) = files st"
  by (induction qs arbitrary: st acc) (simp_all add: google_search_def Let_def split: sum.splits)

lemma run_queries_trace:
  "\<exists>evs. trace (fst (run_queries cfg w qs (st, acc))) = trace st @ evs \<and>
         filter is_Smtp evs = [] \<and> filter is_FileWrite evs = [] \<and>
         filter is_HttpGet evs = map (\<lambda>q. HttpGet (search_request cfg q 1)) qs"
proof (induction qs arbitrary: st acc)
  case Nil
  show ?case by simp
next
  case (Cons q qs)
  show ?case
  proof (cases "http_get w (search_request cfg q 1)")
    case (Inl e)
    let ?st = "st\<lparr>trace := trace st @ [HttpGet (search_request cfg q 1), Print (''Search error: '' @ message e)]\<rparr>"
    obtain evs where "trace (fst (run_queries cfg w qs (?st, acc))) = trace ?st @ evs"
      and "filter is_Smtp evs = []" and "filter is_FileWrite evs = []"
      and "filter is_HttpGet evs = map (\<lambda>q. HttpGet (search_request cfg q 1)) qs"
      using Cons.IH by blast
    then show ?thesis
      using Inl by (simp add: google_search_def Let_def)
  next
    case (Inr d)
    let ?st = "st\<lparr>trace := trace st @ [HttpGet (search_request cfg q 1)]\<rparr>"
    obtain evs where "trace (fst (run_queries cfg w qs (?st, acc @ extract_results d))) = trace ?st @ evs"
      and "filter is_Smtp evs = []" and "filter is_FileWrite evs = []"
      and "filter is_HttpGet evs = map (\<lambda>q. HttpGet (search_request cfg q 1)) qs"
      using Cons.IH by blast
    then show ?thesis
      using Inr by (simp add: google_search_def Let_def)
  qed
qed


lemma missing_vars_Nil:
  "missing_vars cfg = [] \<longleftrightarrow>
     truthy (GOOGLE_API_KEY cfg) \<and> truthy (GOOGLE_CSE_ID cfg) \<and> truthy (RECIPIENT cfg) \<and>
     truthy (FROM_EMAIL cfg) \<and> truthy (SMTP_PASS cfg)"
  by (simp add: missing_vars_def required_vars_def)

lemma missing_vars_subset:
  "set (missing_vars cfg) \<subseteq>
     {''GOOGLE_API_KEY'', ''GOOGLE_CSE_ID'', ''RECIPIENT_EMAIL'', ''SMTP_USER'', ''SMTP_PASS''}"
  by (auto simp: missing_vars_def required_vars_def)



lemma missing_message_names:
  "sublist ''GOOGLE_API_KEY'' missing_message"
  "sublist ''GOOGLE_CSE_ID'' missing_message"
  "sublist ''RECIPIENT_EMAIL'' missing_message"
  "sublist ''SMTP_USER'' missing_message"
  "sublist ''SMTP_PASS'' missing_message"
  unfolding missing_message_def by code_simp+

text \<open>
  C4. When a required variable is missing (not set, or set to the empty text), \<open>main\<close>
  raises \<^verbatim>\<open>SystemExit\<close> with a message before anything else happens: the trace
  is empty, so no network call was made, the exit status is not zero, and the message
  holds the name of every missing variable (it names all five required variables).
\<close>

theorem missing_config_aborts:
  "missing_vars cfg \<noteq> [] \<Longrightarrow>
   main cfg w fs = (\<lparr>trace = [], files = fs\<rparr>, SystemExit missing_message) \<and>
   exit_status (snd (main cfg w fs)) \<noteq> 0 \<and>
   (\<forall>n \<in> set (missing_vars cfg). sublist n missing_message)"
proof -
  assume m: "missing_vars cfg \<noteq> []"
  then have g: "\<not> truthy (GOOGLE_API_KEY cfg) \<or> \<not> truthy (GOOGLE_CSE_ID cfg) \<or>
      \<not> truthy (RECIPIENT cfg) \<or> \<not> truthy (FROM_EMAIL cfg) \<or> \<not> truthy (SMTP_PASS cfg)"
    using missing_vars_Nil [of cfg] by blast
  have run: "main cfg w fs = (\<lparr>trace = [], files = fs\<rparr>, SystemExit missing_message)"
    unfolding main_def using g by (simp only: if_True)
  have "\<forall>n \<in> set (missing_vars cfg). sublist n missing_message"
    using missing_vars_subset [of cfg] missing_message_names by auto
  then show ?thesis using run by simp
qed

theorem missing_config_aborts_witness:
  "missing_vars cfg_missing = [''GOOGLE_CSE_ID'', ''SMTP_PASS''] \<and>
   trace (fst (main cfg_missing world_mixed Map.empty)) = [] \<and>
   snd (main cfg_missing world_mixed Map.empty) = SystemExit missing_message \<and>
   exit_status (snd (main cfg_missing world_mixed Map.empty)) = 1 \<and>
   sublist ''GOOGLE_CSE_ID'' missing_message \<and> sublist ''SMTP_PASS'' missing_message"
proof -
  have m: "missing_vars cfg_missing = [''GOOGLE_CSE_ID'', ''SMTP_PASS'']"
    by (simp add: missing_vars_def required_vars_def cfg_missing_def cfg_ok_def)
  then have "missing_vars cfg_missing \<noteq> []" by simp
  from missing_config_aborts [OF this, of world_mixed Map.empty] m
  show ?thesis by simp
qed

lemma body_text_Nil: "body_text [] = [CHR 0x0A]"
  by (simp add: body_text_def)

lemma body_text_Cons:
  assumes "c \<noteq> CHR 0x0A" and "c \<noteq> CHR 0x0D"
  shows "body_text (c # cs) = c # body_text cs"
proof (cases cs)
  case Nil
  then show ?thesis using assms by (simp add: body_text_def line_ends_def)
next
  case (Cons d ds)
  then obtain l ls where l: "lines_of cs = l # ls"
    by (cases "lines_of cs") (auto split: if_splits list.splits)
  have le: "\<not> line_ends c cs" using assms by (simp add: line_ends_def)
  have lc: "lines_of (c # cs) = (c # l) # ls" using le l by simp
  have "l \<noteq> []" using l Cons by (auto split: if_splits list.splits)
  then have "strip_eol (c # l) = c # strip_eol l"
    using assms by (cases l) auto
  then show ?thesis
    unfolding body_text_def lc l by (cases ls) simp_all
qed

lemma body_text_LF:
  "cs \<noteq> [] \<Longrightarrow> body_text (CHR 0x0A # cs) = CHR 0x0A # body_text cs"
proof -
  assume "cs \<noteq> []"
  then obtain l ls where l: "lines_of cs = l # ls"
    by (cases cs; cases "lines_of cs") (auto split: if_splits list.splits)
  have "lines_of (CHR 0x0A # cs) = [CHR 0x0A] # l # ls"
    using l by (simp add: line_ends_def)
  then show ?thesis
    unfolding body_text_def l by simp
qed

lemma body_text_prefix:
  "\<forall>c \<in> set p. c \<noteq> CHR 0x0A \<and> c \<noteq> CHR 0x0D \<Longrightarrow> body_text (p @ t) = p @ body_text t"
  by (induction p) (simp_all add: body_text_Cons)

lemma body_text_plain:
  "\<forall>c \<in> set t. c \<noteq> CHR 0x0A \<and> c \<noteq> CHR 0x0D \<Longrightarrow> body_text t = t @ [CHR 0x0A]"
  using body_text_prefix [of t "[]"] by (simp add: body_text_Nil)

lemma body_text_id:
  "s \<noteq> [] \<Longrightarrow> last s = CHR 0x0A \<Longrightarrow> CHR 0x0D \<notin> set s \<Longrightarrow> body_text s = s"
proof (induction s)
  case Nil
  then show ?case by simp
next
  case (Cons c cs)
  show ?case
  proof (cases "cs = []")
    case True
    then show ?thesis using Cons.prems by (simp add: body_text_def line_ends_def)
  next
    case False
    then have ih: "body_text cs = cs" using Cons by simp
    show ?thesis
    proof (cases "c = CHR 0x0A")
      case True
      then show ?thesis using False ih by (simp add: body_text_LF)
    next
      case nl: False
      have "c \<noteq> CHR 0x0D" using Cons.prems(3) by auto
      then show ?thesis using nl ih by (simp add: body_text_Cons)
    qed
  qed
qed


lemma join_last:
  "xs \<noteq> [] \<Longrightarrow> last xs \<noteq> [] \<Longrightarrow> join sep xs \<noteq> [] \<and> last (join sep xs) = last (last xs)"
  by (induction sep xs rule: join.induct) auto

lemma top_line_last: "top_line ir \<noteq> [] \<and> last (top_line ir) = CHR 0x0A"
  by (cases ir) (simp add: top_line_def del: str_nat.simps)

lemma report_body_last:
  assumes "results \<noteq> []"
  shows "report_body results \<noteq> [] \<and> last (report_body results) = CHR 0x0A"
proof -
  let ?ls = "map top_line (List.enumerate 1 (take 10 results))"
  have ne: "?ls \<noteq> []" using assms by (cases results) simp_all
  then have "last ?ls \<noteq> [] \<and> last (last ?ls) = CHR 0x0A"
    using top_line_last by (metis last_in_set imageE list.set_map)
  then have "join ''\<newline>'' ?ls \<noteq> [] \<and> last (join ''\<newline>'' ?ls) = CHR 0x0A"
    using join_last [OF ne, of "''\<newline>''"] by simp
  then show ?thesis by (simp add: report_body_def)
qed

lemma send_email_gets:
  "filter is_HttpGet (trace (fst (send_email cfg w su b ap st))) = filter is_HttpGet (trace st)"
  by (simp add: send_email_def smtp_deliver_def Let_def split: option.splits)

lemma save_csv_gets:
  "filter is_HttpGet (trace (fst (save_csv w rs f st))) = filter is_HttpGet (trace st)"
  by (simp add: save_csv_def split: option.splits)

lemma main_gets:
  assumes ok: "missing_vars cfg = []"
  shows "filter is_HttpGet (trace (fst (main cfg w fs))) =
           map (\<lambda>q. HttpGet (search_request cfg q 1)) QUERIES"
proof -
  obtain st1 all_results
    where rq: "run_queries cfg w QUERIES (\<lparr>trace = [], files = fs\<rparr>, []) = (st1, all_results)"
    by (cases "run_queries cfg w QUERIES (\<lparr>trace = [], files = fs\<rparr>, [])")
  have h: "filter is_HttpGet (trace st1) = map (\<lambda>q. HttpGet (search_request cfg q 1)) QUERIES"
    using run_queries_trace [of cfg w QUERIES "\<lparr>trace = [], files = fs\<rparr>" "[]"] rq by auto
  have g: "\<not> (\<not> truthy (GOOGLE_API_KEY cfg) \<or> \<not> truthy (GOOGLE_CSE_ID cfg) \<or>
      \<not> truthy (RECIPIENT cfg) \<or> \<not> truthy (FROM_EMAIL cfg) \<or> \<not> truthy (SMTP_PASS cfg))"
    using ok missing_vars_Nil [of cfg] by blast
  show ?thesis
  proof (cases "dedupe all_results = []")
    case True
    let ?r = "send_email cfg w (''Daily Jobs Report '' @ em_dash @ '' No Results'')
                (''No results found on '' @ utcnow_strftime w ''%Y-%m-%d %H:%M UTC'') None st1"
    have "fst (main cfg w fs) = fst ?r"
      unfolding main_def
      by (simp only: g if_False rq) (simp add: True Let_def split: prod.splits sum.splits)
    then show ?thesis using send_email_gets [of cfg w _ _ None st1] h by simp
  next
    case False
    let ?sv = "save_csv w (dedupe all_results) ''daily_jobs_google.csv'' st1"
    let ?subject = "''Daily Jobs Report '' @ em_dash @ '' '' @ utcnow_strftime w ''%Y-%m-%d'' @
                    '' (Google Search)''"
    let ?r = "send_email cfg w ?subject (report_body (dedupe all_results))
                (Some ''daily_jobs_google.csv'') (fst ?sv)"
    have "filter is_HttpGet (trace (fst (main cfg w fs))) = filter is_HttpGet (trace (fst ?sv))
        \<or> filter is_HttpGet (trace (fst (main cfg w fs))) = filter is_HttpGet (trace (fst ?r))"
      unfolding main_def
      by (simp only: g if_False rq) (auto simp: False Let_def split: prod.splits sum.splits)
    then show ?thesis
      using send_email_gets [of cfg w ?subject _ _ "fst ?sv"] save_csv_gets [of w _ _ st1] h
      by auto
  qed
qed

text \<open>
  A sender of more than one line stops \<open>send_email\<close> at the \<^verbatim>\<open>From\<close> header, before
  any conversation with the relay: the state is unchanged and the exception is the
  policy's \<^verbatim>\<open>ValueError\<close>.
\<close>

lemma send_email_sender_line_break:
  assumes "set_header w ''Subject'' (Some subject) = None" and "\<not> single_line (FROM_EMAIL cfg)"
  shows "send_email cfg w subject body attachment_path st = (st, Inl (PyException header_line_error))"
  using assms by (simp add: send_email_def set_header_def)

lemma no_results_subject_single: "single_line (Some (''Daily Jobs Report '' @ em_dash @ '' No Results''))"
  by (simp add: em_dash_def)

lemma main_no_results:
  assumes ok: "missing_vars cfg = []"
    and rq: "run_queries cfg w QUERIES (\<lparr>trace = [], files = fs\<rparr>, []) = (st1, all_results)"
    and empty: "dedupe all_results = []"
    and hp: "\<forall>n v. header_parse_error w n v = None"
    and hf: "single_line (FROM_EMAIL cfg)" and ht: "single_line (RECIPIENT cfg)"
    and s: "s = session_with cfg
              \<lparr>Subject = ''Daily Jobs Report '' @ em_dash @ '' No Results'',
               From = FROM_EMAIL cfg, To = RECIPIENT cfg,
               content = body_text (''No results found on '' @ utcnow_strftime w ''%Y-%m-%d %H:%M UTC''),
               attachment = None\<rparr>"
  shows "main cfg w fs =
           (st1\<lparr>trace := trace st1 @ [Smtp s]\<rparr>,
            case smtp_error w s of None \<Rightarrow> Returned | Some e \<Rightarrow> Uncaught e)"
proof -
  have g: "\<not> (\<not> truthy (GOOGLE_API_KEY cfg) \<or> \<not> truthy (GOOGLE_CSE_ID cfg) \<or>
      \<not> truthy (RECIPIENT cfg) \<or> \<not> truthy (FROM_EMAIL cfg) \<or> \<not> truthy (SMTP_PASS cfg))"
    using ok missing_vars_Nil [of cfg] by blast
  have hs: "set_header w ''Subject'' (Some (''Daily Jobs Report '' @ em_dash @ '' No Results'')) = None"
    using no_results_subject_single hp by (simp only: set_header_def) simp
  have h2: "set_header w ''From'' (FROM_EMAIL cfg) = None" "set_header w ''To'' (RECIPIENT cfg) = None"
    using hf ht hp by (simp_all add: set_header_def)
  have se: "send_email cfg w (''Daily Jobs Report '' @ em_dash @ '' No Results'')
              (''No results found on '' @ utcnow_strftime w ''%Y-%m-%d %H:%M UTC'') None st1 =
            (st1\<lparr>trace := trace st1 @ [Smtp s]\<rparr>,
             case smtp_error w s of None \<Rightarrow> Inr () | Some e \<Rightarrow> Inl e)"
    unfolding send_email_def
    by (simp only: hs h2 option.case) (simp add: s smtp_deliver_def Let_def split: option.splits)
  show ?thesis
    unfolding main_def
    by (simp only: g if_False rq prod.case Let_def empty simp_thms if_True se)
       (simp split: option.splits)
qed

lemma main_report:
  assumes ok: "missing_vars cfg = []"
    and rq: "run_queries cfg w QUERIES (\<lparr>trace = [], files = fs\<rparr>, []) = (st1, all_results)"
    and nonempty: "dedupe all_results \<noteq> []"
    and op: "open_error w ''daily_jobs_google.csv'' = None"
    and hp: "\<forall>n v. header_parse_error w n v = None"
    and hf: "single_line (FROM_EMAIL cfg)" and ht: "single_line (RECIPIENT cfg)"
    and hs: "single_line (Some (''Daily Jobs Report '' @ em_dash @ '' '' @
                utcnow_strftime w ''%Y-%m-%d'' @ '' (Google Search)''))"
    and s: "s = session_with cfg
              \<lparr>Subject = ''Daily Jobs Report '' @ em_dash @ '' '' @ utcnow_strftime w ''%Y-%m-%d'' @
                         '' (Google Search)'',
               From = FROM_EMAIL cfg, To = RECIPIENT cfg,
               content = body_text (report_body (dedupe all_results)),
               attachment = Some \<lparr>maintype = ''application'', subtype = ''csv'',
                                  filename = ''daily_jobs_google.csv'',
                                  payload = csv_text (dedupe all_results)\<rparr>\<rparr>"
    and st2: "st2 = st1\<lparr>trace := trace st1 @
                        [FileWrite ''daily_jobs_google.csv'' (csv_text (dedupe all_results)), Smtp s],
                      files := (files st1)(''daily_jobs_google.csv'' \<mapsto> csv_text (dedupe all_results))\<rparr>"
  shows "main cfg w fs =
           (case smtp_error w s of
              None \<Rightarrow> (st2\<lparr>trace := trace st2 @ [Print ''Report sent.'']\<rparr>, Returned)
            | Some e \<Rightarrow> (st2, Uncaught e))"
proof -
  let ?subject = "''Daily Jobs Report '' @ em_dash @ '' '' @ utcnow_strftime w ''%Y-%m-%d'' @
                    '' (Google Search)''"
  let ?text = "csv_text (dedupe all_results)"
  let ?sv = "st1\<lparr>trace := trace st1 @ [FileWrite ''daily_jobs_google.csv'' ?text],
                 files := (files st1)(''daily_jobs_google.csv'' \<mapsto> ?text)\<rparr>"
  have g: "\<not> (\<not> truthy (GOOGLE_API_KEY cfg) \<or> \<not> truthy (GOOGLE_CSE_ID cfg) \<or>
      \<not> truthy (RECIPIENT cfg) \<or> \<not> truthy (FROM_EMAIL cfg) \<or> \<not> truthy (SMTP_PASS cfg))"
    using ok missing_vars_Nil [of cfg] by blast
  have b: "basename ''daily_jobs_google.csv'' = ''daily_jobs_google.csv''"
    by (simp add: basename_def)
  have h1: "set_header w ''Subject'' (Some ?subject) = None"
    using hs hp by (simp only: set_header_def) simp
  have h2: "set_header w ''From'' (FROM_EMAIL cfg) = None" "set_header w ''To'' (RECIPIENT cfg) = None"
    using hf ht hp by (simp_all add: set_header_def)
  have sv: "save_csv w (dedupe all_results) ''daily_jobs_google.csv'' st1 = (?sv, Inr ())"
    by (simp add: save_csv_def op)
  have se: "send_email cfg w ?subject (report_body (dedupe all_results))
              (Some ''daily_jobs_google.csv'') ?sv =
            (st2, case smtp_error w s of None \<Rightarrow> Inr () | Some e \<Rightarrow> Inl e)"
    unfolding send_email_def
    by (simp only: h1 h2 option.case)
       (simp add: s st2 b smtp_deliver_def Let_def split: option.splits)
  show ?thesis
    unfolding main_def
    by (simp only: g if_False rq prod.case Let_def nonempty simp_thms if_False sv se)
       (simp split: option.splits)
qed

text \<open>
  C3. With the required configuration present, a sender and a recipient of one line each,
  a header parser and a relay that accept, and an empty deduplicated result, the run
  returns after exactly one conversation with the mail relay, so one email is sent: its
  subject contains \<^verbatim>\<open>No Results\<close>, its body is \<^verbatim>\<open>No results found on\<close> followed
  by the UTC time (as \<^verbatim>\<open>set_content\<close> stores it, ended by a line feed), and it has
  no attachment; no file is written, and the files are as before the run.
\<close>

theorem no_results_email:
  assumes ok: "missing_vars cfg = []"
    and empty: "dedupe (snd (run_queries cfg w QUERIES (\<lparr>trace = [], files = fs\<rparr>, []))) = []"
    and hf: "single_line (FROM_EMAIL cfg)" and ht: "single_line (RECIPIENT cfg)"
    and hp: "\<forall>n v. header_parse_error w n v = None"
    and relay: "\<forall>s. smtp_error w s = None"
  shows "snd (main cfg w fs) = Returned \<and>
         (\<exists>s. filter is_Smtp (trace (fst (main cfg w fs))) = [Smtp s] \<and>
              sublist ''No Results'' (Subject (sent s)) \<and>
              content (sent s) =
                ''No results found on '' @ body_text (utcnow_strftime w ''%Y-%m-%d %H:%M UTC'') \<and>
              attachment (sent s) = None) \<and>
         filter is_FileWrite (trace (fst (main cfg w fs))) = [] \<and>
         files (fst (main cfg w fs)) = fs"
proof -
  obtain st1 all_results
    where rq: "run_queries cfg w QUERIES (\<lparr>trace = [], files = fs\<rparr>, []) = (st1, all_results)"
    by (cases "run_queries cfg w QUERIES (\<lparr>trace = [], files = fs\<rparr>, [])")
  define s where "s = session_with cfg
              \<lparr>Subject = ''Daily Jobs Report '' @ em_dash @ '' No Results'',
               From = FROM_EMAIL cfg, To = RECIPIENT cfg,
               content = body_text (''No results found on '' @ utcnow_strftime w ''%Y-%m-%d %H:%M UTC''),
               attachment = None\<rparr>"
  have e: "dedupe all_results = []" using empty rq by simp
  have "main cfg w fs =
           (st1\<lparr>trace := trace st1 @ [Smtp s]\<rparr>,
            case smtp_error w s of None \<Rightarrow> Returned | Some e \<Rightarrow> Uncaught e)"
    by (rule main_no_results [OF ok rq e hp hf ht s_def])
  then have m: "main cfg w fs = (st1\<lparr>trace := trace st1 @ [Smtp s]\<rparr>, Returned)"
    using relay by simp
  obtain evs where evs: "trace st1 = evs" "filter is_Smtp evs = []" "filter is_FileWrite evs = []"
    using run_queries_trace [of cfg w QUERIES "\<lparr>trace = [], files = fs\<rparr>" "[]"] rq by auto
  have f: "files st1 = fs"
    using run_queries_files [of cfg w QUERIES "\<lparr>trace = [], files = fs\<rparr>" "[]"] rq by simp
  have sub: "sublist ''No Results'' (Subject (sent s))"
  proof -
    have "Subject (sent s) = (''Daily Jobs Report '' @ em_dash @ '' '') @ ''No Results'' @ []"
      by (simp add: s_def session_with_def)
    then show ?thesis by (simp only: sublist_appendI)
  qed
  have c: "content (sent s) =
      ''No results found on '' @ body_text (utcnow_strftime w ''%Y-%m-%d %H:%M UTC'')"
    using body_text_prefix [of "''No results found on ''" "utcnow_strftime w ''%Y-%m-%d %H:%M UTC''"]
    by (simp add: s_def session_with_def)
  have a: "attachment (sent s) = None" by (simp add: s_def session_with_def)
  have t: "filter is_Smtp (trace (fst (main cfg w fs))) = [Smtp s]"
    using m evs by simp
  show ?thesis
  proof (intro conjI)
    show "snd (main cfg w fs) = Returned" using m by simp
    show "\<exists>s. filter is_Smtp (trace (fst (main cfg w fs))) = [Smtp s] \<and>
              sublist ''No Results'' (Subject (sent s)) \<and>
              content (sent s) =
                ''No results found on '' @ body_text (utcnow_strftime w ''%Y-%m-%d %H:%M UTC'') \<and>
              attachment (sent s) = None"
      using t sub c a by blast
    show "filter is_FileWrite (trace (fst (main cfg w fs))) = []"
      using m evs by simp
    show "files (fst (main cfg w fs)) = fs"
      using m f by simp
  qed
qed

lemma run_down:
  "run_queries cfg_ok world_down QUERIES (\<lparr>trace = [], files = Map.empty\<rparr>, []) =
     (\<lparr>trace = [HttpGet (search_request cfg_ok (QUERIES ! 0) 1), Print ''Search error: network down'',
                HttpGet (search_request cfg_ok (QUERIES ! 1) 1), Print ''Search error: network down'',
                HttpGet (search_request cfg_ok (QUERIES ! 2) 1), Print ''Search error: network down''],
       files = Map.empty\<rparr>, [])"
  by (simp add: QUERIES_def google_search_def world_down_def Let_def)

lemma cfg_ok_single: "single_line (FROM_EMAIL cfg_ok)" "single_line (RECIPIENT cfg_ok)"
  by (simp_all add: cfg_ok_def)

theorem no_results_email_witness:
  "missing_vars cfg_ok = [] \<and>
   dedupe (snd (run_queries cfg_ok world_down QUERIES (\<lparr>trace = [], files = Map.empty\<rparr>, []))) = [] \<and>
   single_line (FROM_EMAIL cfg_ok) \<and> single_line (RECIPIENT cfg_ok) \<and>
   (\<forall>n v. header_parse_error world_down n v = None) \<and>
   (\<forall>s. smtp_error world_down s = None) \<and>
   snd (main cfg_ok world_down Map.empty) = Returned \<and>
   (\<exists>s. filter is_Smtp (trace (fst (main cfg_ok world_down Map.empty))) = [Smtp s] \<and>
        sublist ''No Results'' (Subject (sent s)) \<and>
        content (sent s) = ''No results found on 2024-01-02 03:04 UTC\<newline>'' \<and>
        attachment (sent s) = None) \<and>
   filter is_FileWrite (trace (fst (main cfg_ok world_down Map.empty))) = [] \<and>
   files (fst (main cfg_ok world_down Map.empty)) = Map.empty"
proof -
  have h1: "missing_vars cfg_ok = []"
    by (simp add: missing_vars_def required_vars_def cfg_ok_def)
  have h2: "dedupe (snd (run_queries cfg_ok world_down QUERIES
              (\<lparr>trace = [], files = Map.empty\<rparr>, []))) = []"
    by (simp add: run_down dedupe_def)
  have hp: "\<forall>n v. header_parse_error world_down n v = None"
    and hr: "\<forall>s. smtp_error world_down s = None"
    by (simp_all add: world_down_def)
  have c: "body_text (utcnow_strftime world_down ''%Y-%m-%d %H:%M UTC'') = ''2024-01-02 03:04 UTC\<newline>''"
    by (simp add: world_down_def clock_def body_text_plain)
  from no_results_email [OF h1 h2 cfg_ok_single hp hr] show ?thesis
    using h1 h2 cfg_ok_single hp hr by (simp add: c)
qed

lemma main_returns:
  assumes ok: "missing_vars cfg = []"
    and op: "\<forall>f. open_error w f = None" and sm: "\<forall>s. smtp_error w s = None"
    and hp: "\<forall>n v. header_parse_error w n v = None"
    and hf: "single_line (FROM_EMAIL cfg)" and ht: "single_line (RECIPIENT cfg)"
    and hs: "single_line (Some (''Daily Jobs Report '' @ em_dash @ '' '' @
                utcnow_strftime w ''%Y-%m-%d'' @ '' (Google Search)''))"
  shows "snd (main cfg w fs) = Returned"
proof -
  obtain st1 all_results
    where rq: "run_queries cfg w QUERIES (\<lparr>trace = [], files = fs\<rparr>, []) = (st1, all_results)"
    by (cases "run_queries cfg w QUERIES (\<lparr>trace = [], files = fs\<rparr>, [])")
  show ?thesis
  proof (cases "dedupe all_results = []")
    case True
    show ?thesis
      using main_no_results [OF ok rq True hp hf ht refl] sm by simp
  next
    case False
    show ?thesis
      using main_report [OF ok rq False op [rule_format] hp hf ht hs refl refl] sm by simp
  qed
qed

text \<open>
  C5. A query \<open>q\<close> whose search raises: after the queries before it, the loop makes the
  call for \<open>q\<close>, prints the error, leaves \<open>all_results\<close> as it was (zero records for
  \<open>q\<close>) and goes on with the remaining queries. The run as a whole does not abort on
  search errors: with the required configuration present \<open>main\<close> makes one call per
  query whatever the searches do, and it returns when the reporter's file system, header
  parser and relay accept and the header values are of one line.
\<close>

theorem search_error_is_skipped:
  assumes "http_get w (search_request cfg q 1) = Inl e"
  shows "run_queries cfg w (qs1 @ q # qs2) (st, acc) =
           (case run_queries cfg w qs1 (st, acc) of
              (st1, acc1) \<Rightarrow>
                run_queries cfg w qs2
                  (st1\<lparr>trace := trace st1 @
                         [HttpGet (search_request cfg q 1), Print (''Search error: '' @ message e)]\<rparr>,
                   acc1)) \<and>
         (missing_vars cfg = [] \<longrightarrow>
            filter is_HttpGet (trace (fst (main cfg w fs))) =
              map (\<lambda>q. HttpGet (search_request cfg q 1)) QUERIES) \<and>
         (missing_vars cfg = [] \<and> (\<forall>f. open_error w f = None) \<and> (\<forall>s. smtp_error w s = None) \<and>
          (\<forall>n v. header_parse_error w n v = None) \<and>
          single_line (FROM_EMAIL cfg) \<and> single_line (RECIPIENT cfg) \<and>
          single_line (Some (''Daily Jobs Report '' @ em_dash @ '' '' @
             utcnow_strftime w ''%Y-%m-%d'' @ '' (Google Search)'')) \<longrightarrow>
            snd (main cfg w fs) = Returned)"
proof (intro conjI)
  obtain st1 acc1 where r1: "run_queries cfg w qs1 (st, acc) = (st1, acc1)"
    by (cases "run_queries cfg w qs1 (st, acc)")
  have "run_queries cfg w (qs1 @ q # qs2) (st, acc) = run_queries cfg w (q # qs2) (st1, acc1)"
    by (simp add: run_queries_append r1)
  also have "\<dots> = run_queries cfg w qs2
                  (st1\<lparr>trace := trace st1 @
                         [HttpGet (search_request cfg q 1), Print (''Search error: '' @ message e)]\<rparr>,
                   acc1)"
    using assms by (simp add: google_search_def Let_def)
  finally show "run_queries cfg w (qs1 @ q # qs2) (st, acc) =
           (case run_queries cfg w qs1 (st, acc) of
              (st1, acc1) \<Rightarrow>
                run_queries cfg w qs2
                  (st1\<lparr>trace := trace st1 @
                         [HttpGet (search_request cfg q 1), Print (''Search error: '' @ message e)]\<rparr>,
                   acc1))"
    by (simp add: r1)
next
  show "missing_vars cfg = [] \<longrightarrow>
            filter is_HttpGet (trace (fst (main cfg w fs))) =
              map (\<lambda>q. HttpGet (search_request cfg q 1)) QUERIES"
    using main_gets by blast
next
  show "missing_vars cfg = [] \<and> (\<forall>f. open_error w f = None) \<and> (\<forall>s. smtp_error w s = None) \<and>
          (\<forall>n v. header_parse_error w n v = None) \<and>
          single_line (FROM_EMAIL cfg) \<and> single_line (RECIPIENT cfg) \<and>
          single_line (Some (''Daily Jobs Report '' @ em_dash @ '' '' @
             utcnow_strftime w ''%Y-%m-%d'' @ '' (Google Search)'')) \<longrightarrow>
            snd (main cfg w fs) = Returned"
    using main_returns by blast
qed

lemma run_mixed:
  "run_queries cfg_ok world_mixed QUERIES (\<lparr>trace = [], files = Map.empty\<rparr>, []) =
     (\<lparr>trace = [HttpGet (search_request cfg_ok (QUERIES ! 0) 1),
                Print ''Search error: 503 Server Error'',
                HttpGet (search_request cfg_ok (QUERIES ! 1) 1),
                HttpGet (search_request cfg_ok (QUERIES ! 2) 1)],
       files = Map.empty\<rparr>, [rec_b, rec_untitled])"
  by (simp add: QUERIES_def google_search_def world_mixed_def Let_def search_request_def
      extract_results_def item_sre_def item_cloud_def rec_b_def rec_untitled_def)

lemma world_mixed_accepts:
  "\<forall>f. open_error world_mixed f = None" "\<forall>s. smtp_error world_mixed s = None"
  "\<forall>n v. header_parse_error world_mixed n v = None"
  "single_line (Some (''Daily Jobs Report '' @ em_dash @ '' '' @
      utcnow_strftime world_mixed ''%Y-%m-%d'' @ '' (Google Search)''))"
  by (simp_all add: world_mixed_def clock_def em_dash_def)

theorem search_error_is_skipped_witness:
  "http_get world_mixed (search_request cfg_ok (QUERIES ! 0) 1) = Inl (PyException ''503 Server Error'') \<and>
   run_queries cfg_ok world_mixed ([] @ QUERIES ! 0 # [QUERIES ! 1, QUERIES ! 2])
       (\<lparr>trace = [], files = Map.empty\<rparr>, []) =
     run_queries cfg_ok world_mixed [QUERIES ! 1, QUERIES ! 2]
       (\<lparr>trace = [HttpGet (search_request cfg_ok (QUERIES ! 0) 1),
                  Print ''Search error: 503 Server Error''],
         files = Map.empty\<rparr>, []) \<and>
   snd (run_queries cfg_ok world_mixed QUERIES (\<lparr>trace = [], files = Map.empty\<rparr>, []))
     = [rec_b, rec_untitled] \<and>
   missing_vars cfg_ok = [] \<and>
   filter is_HttpGet (trace (fst (main cfg_ok world_mixed Map.empty))) =
     map (\<lambda>q. HttpGet (search_request cfg_ok q 1)) QUERIES \<and>
   snd (main cfg_ok world_mixed Map.empty) = Returned"
proof -
  have h: "http_get world_mixed (search_request cfg_ok (QUERIES ! 0) 1)
             = Inl (PyException ''503 Server Error'')"
    by (simp add: world_mixed_def)
  have ok: "missing_vars cfg_ok = []"
    by (simp add: missing_vars_def required_vars_def cfg_ok_def)
  from search_error_is_skipped [OF h, of "[]" "[QUERIES ! 1, QUERIES ! 2]"
      "\<lparr>trace = [], files = Map.empty\<rparr>" "[]" Map.empty]
  show ?thesis
    using h ok world_mixed_accepts cfg_ok_single by (simp add: run_mixed)
qed

lemma csv_text_row_at:
  assumes "k < length results"
  shows "csv_text results =
     csv_row [Some ''title'', Some ''url'', Some ''snippet''] @
     concat (map (\<lambda>x. csv_row (row_of x)) (take k results)) @
     csv_row (row_of (results ! k)) @
     concat (map (\<lambda>x. csv_row (row_of x)) (drop (Suc k) results))"
proof -
  let ?f = "\<lambda>x. csv_row (row_of x)"
  have "results = take k results @ results ! k # drop (Suc k) results"
    using assms by (rule id_take_nth_drop)
  then have "concat (map ?f results) =
      concat (map ?f (take k results)) @ ?f (results ! k) @ concat (map ?f (drop (Suc k) results))"
    by (metis concat.simps(2) concat_append list.simps(9) map_append)
  then show ?thesis by (simp add: csv_text_def)
qed

lemma csv_field_None: "csv_field None = []"
  by (simp add: csv_field_def needs_quote_def)

lemma csv_row_fields:
  "csv_row (row_of r) =
     (case title r of None \<Rightarrow> [] | Some t \<Rightarrow> csv_field (Some t)) @ '','' @
     (case url r of None \<Rightarrow> [] | Some t \<Rightarrow> csv_field (Some t)) @ '','' @
     (case snippet r of None \<Rightarrow> [] | Some t \<Rightarrow> csv_field (Some t)) @ [CHR 0x0D, CHR 0x0A]"
  by (simp add: csv_row_def row_of_def csv_field_None split: option.splits)

lemma top_line_nth:
  assumes "k < length results" and "k < 10"
  shows "map top_line (List.enumerate 1 (take 10 results)) ! k =
     str_nat (Suc k) @ ''. '' @
     (case title (results ! k) of None \<Rightarrow> ''None'' | Some t \<Rightarrow> t) @ ''\<newline>   '' @
     (case url (results ! k) of None \<Rightarrow> ''None'' | Some t \<Rightarrow> t) @ ''\<newline>   '' @
     (case snippet (results ! k) of None \<Rightarrow> ''None'' | Some t \<Rightarrow> t) @ ''\<newline>''"
proof -
  have l: "k < length (take 10 results)" using assms by simp
  then have "List.enumerate 1 (take 10 results) ! k = (Suc k, results ! k)"
    using assms by (simp add: nth_enumerate_eq)
  moreover have "fmt_opt v = (case v of None \<Rightarrow> ''None'' | Some t \<Rightarrow> t)" for v
    by (cases v) simp_all
  ultimately show ?thesis
    using l by (simp add: top_line_def del: str_nat.simps)
qed

text \<open>
  C10. In the report email (results not empty, the CSV file written, the headers of one
  line, parser and relay accepting) the run returns after one conversation with the
  relay. The body is the heading followed by the lines of the first ten records (as
  \<^verbatim>\<open>set_content\<close> stores it; unchanged when no line holds a carriage return), and
  line \<open>k\<close> renders an absent title, url or snippet of record \<open>k\<close> as the text
  \<^verbatim>\<open>None\<close>. The attachment is the CSV file: the header row, the rows of the records
  before \<open>k\<close>, the row of record \<open>k\<close>, the rows after it; in that row an absent field
  is the empty text.
\<close>

theorem report_renders_missing_as_None:
  assumes ok: "missing_vars cfg = []"
    and res: "results = dedupe (snd (run_queries cfg w QUERIES (\<lparr>trace = [], files = fs\<rparr>, [])))"
    and op: "open_error w ''daily_jobs_google.csv'' = None"
    and hf: "single_line (FROM_EMAIL cfg)" and ht: "single_line (RECIPIENT cfg)"
    and hs: "single_line (Some (''Daily Jobs Report '' @ em_dash @ '' '' @
                utcnow_strftime w ''%Y-%m-%d'' @ '' (Google Search)''))"
    and hp: "\<forall>n v. header_parse_error w n v = None"
    and relay: "\<forall>s. smtp_error w s = None"
    and k: "k < length results" "k < 10"
    and r: "r = results ! k"
  shows "snd (main cfg w fs) = Returned \<and>
     files (fst (main cfg w fs)) ''daily_jobs_google.csv'' = Some (csv_text results) \<and>
     (\<exists>s part.
        filter is_Smtp (trace (fst (main cfg w fs))) = [Smtp s] \<and>
        content (sent s) =
          body_text (''Daily Jobs Report '' @ em_dash @ '' Entry-level Cloud/DevOps (AWS)\<newline>\<newline>'' @
                     join ''\<newline>'' (map top_line (List.enumerate 1 (take 10 results)))) \<and>
        (CHR 0x0D \<notin> set (join ''\<newline>'' (map top_line (List.enumerate 1 (take 10 results)))) \<longrightarrow>
           content (sent s) =
             ''Daily Jobs Report '' @ em_dash @ '' Entry-level Cloud/DevOps (AWS)\<newline>\<newline>'' @
             join ''\<newline>'' (map top_line (List.enumerate 1 (take 10 results)))) \<and>
        attachment (sent s) = Some part \<and>
        payload part = csv_text results) \<and>
     map top_line (List.enumerate 1 (take 10 results)) ! k =
       str_nat (Suc k) @ ''. '' @
       (case title r of None \<Rightarrow> ''None'' | Some t \<Rightarrow> t) @ ''\<newline>   '' @
       (case url r of None \<Rightarrow> ''None'' | Some t \<Rightarrow> t) @ ''\<newline>   '' @
       (case snippet r of None \<Rightarrow> ''None'' | Some t \<Rightarrow> t) @ ''\<newline>'' \<and>
     csv_text results =
       csv_row [Some ''title'', Some ''url'', Some ''snippet''] @
       concat (map (\<lambda>x. csv_row (row_of x)) (take k results)) @
       csv_row (row_of r) @
       concat (map (\<lambda>x. csv_row (row_of x)) (drop (Suc k) results)) \<and>
     csv_row (row_of r) =
       (case title r of None \<Rightarrow> [] | Some t \<Rightarrow> csv_field (Some t)) @ '','' @
       (case url r of None \<Rightarrow> [] | Some t \<Rightarrow> csv_field (Some t)) @ '','' @
       (case snippet r of None \<Rightarrow> [] | Some t \<Rightarrow> csv_field (Some t)) @ [CHR 0x0D, CHR 0x0A]"
proof -
  obtain st1 all_results
    where rq: "run_queries cfg w QUERIES (\<lparr>trace = [], files = fs\<rparr>, []) = (st1, all_results)"
    by (cases "run_queries cfg w QUERIES (\<lparr>trace = [], files = fs\<rparr>, [])")
  have results: "results = dedupe all_results" using res rq by simp
  then have ne: "dedupe all_results \<noteq> []" using k(1) by auto
  define part where "part = \<lparr>maintype = ''application'', subtype = ''csv'',
      filename = ''daily_jobs_google.csv'', payload = csv_text (dedupe all_results)\<rparr>"
  define s where "s = session_with cfg
              \<lparr>Subject = ''Daily Jobs Report '' @ em_dash @ '' '' @ utcnow_strftime w ''%Y-%m-%d'' @
                         '' (Google Search)'',
               From = FROM_EMAIL cfg, To = RECIPIENT cfg,
               content = body_text (report_body (dedupe all_results)),
               attachment = Some part\<rparr>"
  have "main cfg w fs =
           (case smtp_error w s of
              None \<Rightarrow> (st1\<lparr>trace := trace st1 @
                        [FileWrite ''daily_jobs_google.csv'' (csv_text (dedupe all_results)), Smtp s,
                         Print ''Report sent.''],
                      files := (files st1)(''daily_jobs_google.csv'' \<mapsto> csv_text (dedupe all_results))\<rparr>,
                       Returned)
            | Some e \<Rightarrow> (st1\<lparr>trace := trace st1 @
                        [FileWrite ''daily_jobs_google.csv'' (csv_text (dedupe all_results)), Smtp s],
                      files := (files st1)(''daily_jobs_google.csv'' \<mapsto> csv_text (dedupe all_results))\<rparr>,
                        Uncaught e))"
    using main_report [OF ok rq ne op hp hf ht hs s_def [unfolded part_def] refl]
    by (simp split: option.splits)
  then have m: "main cfg w fs =
      (st1\<lparr>trace := trace st1 @
              [FileWrite ''daily_jobs_google.csv'' (csv_text (dedupe all_results)), Smtp s,
               Print ''Report sent.''],
            files := (files st1)(''daily_jobs_google.csv'' \<mapsto> csv_text (dedupe all_results))\<rparr>,
       Returned)"
    using relay by simp
  have evs: "filter is_Smtp (trace st1) = []"
    using run_queries_trace [of cfg w QUERIES "\<lparr>trace = [], files = fs\<rparr>" "[]"] rq by auto
  let ?lines = "map top_line (List.enumerate 1 (take 10 results))"
  let ?body = "''Daily Jobs Report '' @ em_dash @ '' Entry-level Cloud/DevOps (AWS)\<newline>\<newline>'' @
                 join ''\<newline>'' ?lines"
  have body: "report_body results = ?body"
    by (simp add: report_body_def)
  have c1: "content (sent s) = body_text ?body"
    using body by (simp add: s_def session_with_def results)
  have c2: "content (sent s) = ?body"
    if cr: "CHR 0x0D \<notin> set (join ''\<newline>'' ?lines)"
  proof -
    have nocr: "CHR 0x0D \<notin> set (report_body results)"
      using cr by (simp add: report_body_def em_dash_def)
    have "results \<noteq> []" using k(1) by auto
    then have "report_body results \<noteq> [] \<and> last (report_body results) = CHR 0x0A"
      by (rule report_body_last)
    then have "body_text (report_body results) = report_body results"
      using nocr by (simp add: body_text_id)
    then show ?thesis using c1 body by simp
  qed
  have t: "filter is_Smtp (trace (fst (main cfg w fs))) = [Smtp s]"
    using m evs by simp
  have a: "attachment (sent s) = Some part" by (simp add: s_def session_with_def)
  have p: "payload part = csv_text results" by (simp add: part_def results)
  show ?thesis
  proof (intro conjI)
    show "snd (main cfg w fs) = Returned" using m by simp
    show "files (fst (main cfg w fs)) ''daily_jobs_google.csv'' = Some (csv_text results)"
      using m results by simp
    show "\<exists>s part.
        filter is_Smtp (trace (fst (main cfg w fs))) = [Smtp s] \<and>
        content (sent s) = body_text ?body \<and>
        (CHR 0x0D \<notin> set (join ''\<newline>'' ?lines) \<longrightarrow> content (sent s) = ?body) \<and>
        attachment (sent s) = Some part \<and>
        payload part = csv_text results"
      using t c1 c2 a p by blast
    show "?lines ! k =
       str_nat (Suc k) @ ''. '' @
       (case title r of None \<Rightarrow> ''None'' | Some t \<Rightarrow> t) @ ''\<newline>   '' @
       (case url r of None \<Rightarrow> ''None'' | Some t \<Rightarrow> t) @ ''\<newline>   '' @
       (case snippet r of None \<Rightarrow> ''None'' | Some t \<Rightarrow> t) @ ''\<newline>''"
      unfolding r by (rule top_line_nth [OF k])
    show "csv_text results =
       csv_row [Some ''title'', Some ''url'', Some ''snippet''] @
       concat (map (\<lambda>x. csv_row (row_of x)) (take k results)) @
       csv_row (row_of r) @
       concat (map (\<lambda>x. csv_row (row_of x)) (drop (Suc k) results))"
      unfolding r by (rule csv_text_row_at [OF k(1)])
    show "csv_row (row_of r) =
       (case title r of None \<Rightarrow> [] | Some t \<Rightarrow> csv_field (Some t)) @ '','' @
       (case url r of None \<Rightarrow> [] | Some t \<Rightarrow> csv_field (Some t)) @ '','' @
       (case snippet r of None \<Rightarrow> [] | Some t \<Rightarrow> csv_field (Some t)) @ [CHR 0x0D, CHR 0x0A]"
      by (rule csv_row_fields)
  qed
qed


lemma mixed_csv:
  "csv_text [rec_b, rec_untitled] =
     ''title,url,snippet'' @ [CHR 0x0D, CHR 0x0A] @
     ''SRE,https://x.com/b,'' @ [CHR 0x0D, CHR 0x0A] @
     '',https://x.com/a,first'' @ [CHR 0x0D, CHR 0x0A]"
  by (simp add: csv_text_def csv_row_def row_of_def csv_field_def needs_quote_def dquote_def
      rec_b_def rec_untitled_def)

lemma mixed_lines:
  "join ''\<newline>'' (map top_line (List.enumerate 1 (take 10 [rec_b, rec_untitled]))) =
     ''1. SRE\<newline>   https://x.com/b\<newline>   None\<newline>\<newline>2. None\<newline>   https://x.com/a\<newline>   first\<newline>''"
  by (simp add: top_line_def rec_b_def rec_untitled_def)

theorem report_renders_missing_as_None_witness:
  "missing_vars cfg_ok = [] \<and>
   dedupe (snd (run_queries cfg_ok world_mixed QUERIES (\<lparr>trace = [], files = Map.empty\<rparr>, [])))
     = [rec_b, rec_untitled] \<and>
   title rec_untitled = None \<and>
   snd (main cfg_ok world_mixed Map.empty) = Returned \<and>
   (\<exists>s part.
      filter is_Smtp (trace (fst (main cfg_ok world_mixed Map.empty))) = [Smtp s] \<and>
      content (sent s) =
        ''Daily Jobs Report '' @ em_dash @ '' Entry-level Cloud/DevOps (AWS)\<newline>\<newline>'' @
        ''1. SRE\<newline>   https://x.com/b\<newline>   None\<newline>\<newline>2. None\<newline>   https://x.com/a\<newline>   first\<newline>'' \<and>
      attachment (sent s) = Some part \<and>
      payload part =
        ''title,url,snippet'' @ [CHR 0x0D, CHR 0x0A] @
        ''SRE,https://x.com/b,'' @ [CHR 0x0D, CHR 0x0A] @
        '',https://x.com/a,first'' @ [CHR 0x0D, CHR 0x0A]) \<and>
   map top_line (List.enumerate 1 (take 10 [rec_b, rec_untitled])) ! 1 =
     ''2. None\<newline>   https://x.com/a\<newline>   first\<newline>'' \<and>
   csv_row (row_of rec_untitled) = '',https://x.com/a,first'' @ [CHR 0x0D, CHR 0x0A]"
proof -
  have ok: "missing_vars cfg_ok = []"
    by (simp add: missing_vars_def required_vars_def cfg_ok_def)
  have dd: "dedupe [rec_b, rec_untitled] = [rec_b, rec_untitled]"
    by (simp add: dedupe_def dedupe_loop_Cons rec_b_def rec_untitled_def)
  have res: "[rec_b, rec_untitled] =
      dedupe (snd (run_queries cfg_ok world_mixed QUERIES (\<lparr>trace = [], files = Map.empty\<rparr>, [])))"
    by (simp add: run_mixed dd)
  have k: "1 < length [rec_b, rec_untitled]" "(1::nat) < 10" by simp_all
  have r: "rec_untitled = [rec_b, rec_untitled] ! 1" by simp
  have t: "title rec_untitled = None" "url rec_untitled = Some ''https://x.com/a''"
    "snippet rec_untitled = Some ''first''"
    by (simp_all add: rec_untitled_def)
  have nocr: "CHR 0x0D \<notin> set (join ''\<newline>''
      (map top_line (List.enumerate 1 (take 10 [rec_b, rec_untitled]))))"
    by (simp only: mixed_lines) simp
  have row: "csv_row (row_of rec_untitled) = '',https://x.com/a,first'' @ [CHR 0x0D, CHR 0x0A]"
    by (simp add: csv_row_def row_of_def csv_field_def needs_quote_def dquote_def rec_untitled_def)
  from report_renders_missing_as_None [OF ok res world_mixed_accepts(1) [rule_format]
      cfg_ok_single world_mixed_accepts(4) world_mixed_accepts(3) world_mixed_accepts(2) k r]
  obtain s part where
    ret: "snd (main cfg_ok world_mixed Map.empty) = Returned"
    and sm: "filter is_Smtp (trace (fst (main cfg_ok world_mixed Map.empty))) = [Smtp s]"
    and c: "CHR 0x0D \<notin> set (join ''\<newline>''
              (map top_line (List.enumerate 1 (take 10 [rec_b, rec_untitled])))) \<longrightarrow>
            content (sent s) =
              ''Daily Jobs Report '' @ em_dash @ '' Entry-level Cloud/DevOps (AWS)\<newline>\<newline>'' @
              join ''\<newline>'' (map top_line (List.enumerate 1 (take 10 [rec_b, rec_untitled])))"
    and a: "attachment (sent s) = Some part"
    and p: "payload part = csv_text [rec_b, rec_untitled]"
    and l: "map top_line (List.enumerate 1 (take 10 [rec_b, rec_untitled])) ! 1 =
       str_nat (Suc 1) @ ''. '' @
       (case title rec_untitled of None \<Rightarrow> ''None'' | Some t \<Rightarrow> t) @ ''\<newline>   '' @
       (case url rec_untitled of None \<Rightarrow> ''None'' | Some t \<Rightarrow> t) @ ''\<newline>   '' @
       (case snippet rec_untitled of None \<Rightarrow> ''None'' | Some t \<Rightarrow> t) @ ''\<newline>''"
    by blast
  have c': "content (sent s) =
        ''Daily Jobs Report '' @ em_dash @ '' Entry-level Cloud/DevOps (AWS)\<newline>\<newline>'' @
        ''1. SRE\<newline>   https://x.com/b\<newline>   None\<newline>\<newline>2. None\<newline>   https://x.com/a\<newline>   first\<newline>''"
    using c [rule_format, OF nocr] by (simp only: mixed_lines)
  have p': "payload part =
        ''title,url,snippet'' @ [CHR 0x0D, CHR 0x0A] @
        ''SRE,https://x.com/b,'' @ [CHR 0x0D, CHR 0x0A] @
        '',https://x.com/a,first'' @ [CHR 0x0D, CHR 0x0A]"
    using p by (simp only: mixed_csv)
  have l': "map top_line (List.enumerate 1 (take 10 [rec_b, rec_untitled])) ! 1 =
     ''2. None\<newline>   https://x.com/a\<newline>   first\<newline>''"
    using l by (simp add: t)
  show ?thesis
    using ok res [symmetric] t(1) ret sm c' a p' l' row by blast
qed

section \<open>Properties of the CSV file\<close>

lemma lines_of_nonempty: "cs \<noteq> [] \<Longrightarrow> lines_of cs \<noteq> []"
  by (cases cs) (auto split: list.splits)

lemma read_rows_Cons_line:
  "read_rows rd ((c # l) # ls) =
     (case parse_process_char rd (Some c) of
        Inl e \<Rightarrow> Inl e
      | Inr rd1 \<Rightarrow> read_rows rd1 (l # ls))"
  by (simp split: sum.splits)

lemma read_lines_Cons:
  "read_rows rd (lines_of (c # cs)) =
     (case parse_process_char rd (Some c) of
        Inl e \<Rightarrow> Inl e
      | Inr rd1 \<Rightarrow>
          if line_ends c cs \<or> cs = [] then
            (case parse_process_char rd1 None of
               Inl e \<Rightarrow> Inl e
             | Inr rd2 \<Rightarrow>
                 if pst rd2 = START_RECORD
                 then cons_row (fields_done rd2) (read_rows parse_reset (lines_of cs))
                 else read_rows rd2 (lines_of cs))
          else read_rows rd1 (lines_of cs))"
proof (cases "line_ends c cs \<or> cs = []")
  case True
  then have "lines_of (c # cs) = [c] # lines_of cs" by auto
  then show ?thesis using True by (simp split: sum.splits)
next
  case False
  then have "cs \<noteq> []" and nl: "\<not> line_ends c cs" by simp_all
  then obtain l ls where l: "lines_of cs = l # ls"
    using lines_of_nonempty [of cs] by (cases "lines_of cs") auto
  then have "lines_of (c # cs) = (c # l) # ls" using nl by simp
  then show ?thesis
    using False l
    by (simp only: read_rows_Cons_line) (simp split: sum.splits del: read_rows.simps)
qed

lemma read_lines_Nil: "read_rows parse_reset (lines_of []) = Inr []"
  by (simp add: parse_reset_def)

lemma esc_simps: "esc [] = []" "esc (c # s) = (if c = dquote then [dquote, dquote] else [c]) @ esc s"
  by (simp_all add: esc_def)

lemma in_field_plain:
  assumes "\<forall>c \<in> set s. \<not> is_newline c \<and> c \<noteq> CHR '',''" and "rest \<noteq> []"
  shows "read_rows \<lparr>pst = IN_FIELD, field_buf = b, fields_done = fs\<rparr> (lines_of (s @ rest)) =
         read_rows \<lparr>pst = IN_FIELD, field_buf = b @ s, fields_done = fs\<rparr> (lines_of rest)"
  using assms
proof (induction s arbitrary: b)
  case Nil
  show ?case by simp
next
  case (Cons c s)
  have c: "\<not> is_newline c" "c \<noteq> CHR '',''" using Cons.prems(1) by simp_all
  then have le: "\<not> line_ends c (s @ rest)" by (auto simp: line_ends_def is_newline_def)
  have "read_rows \<lparr>pst = IN_FIELD, field_buf = b, fields_done = fs\<rparr> (lines_of (c # s @ rest)) =
        read_rows \<lparr>pst = IN_FIELD, field_buf = b @ [c], fields_done = fs\<rparr> (lines_of (s @ rest))"
    using c le Cons.prems(2)
    by (simp only: read_lines_Cons) (simp add: parse_process_char_def parse_add_char_def)
  also have "\<dots> = read_rows \<lparr>pst = IN_FIELD, field_buf = (b @ [c]) @ s, fields_done = fs\<rparr> (lines_of rest)"
    using Cons.IH [of "b @ [c]"] Cons.prems by simp
  finally show ?case by simp
qed

lemma in_quoted_field:
  assumes "rest \<noteq> []"
  shows "read_rows \<lparr>pst = IN_QUOTED_FIELD, field_buf = b, fields_done = fs\<rparr> (lines_of (esc s @ rest)) =
         read_rows \<lparr>pst = IN_QUOTED_FIELD, field_buf = b @ s, fields_done = fs\<rparr> (lines_of rest)"
  using assms
proof (induction s arbitrary: b)
  case Nil
  show ?case by (simp add: esc_simps)
next
  case (Cons c s)
  have ne: "esc s @ rest \<noteq> []" using Cons.prems by simp
  have step: "read_rows \<lparr>pst = IN_QUOTED_FIELD, field_buf = b, fields_done = fs\<rparr>
                (lines_of (esc (c # s) @ rest)) =
              read_rows \<lparr>pst = IN_QUOTED_FIELD, field_buf = b @ [c], fields_done = fs\<rparr>
                (lines_of (esc s @ rest))"
  proof (cases "c = dquote")
    case True
    have le: "\<not> line_ends dquote t" for t by (simp add: line_ends_def dquote_def)
    have "esc (c # s) @ rest = dquote # dquote # (esc s @ rest)"
      using True by (simp add: esc_simps)
    then show ?thesis
      using True ne le
      by (simp only: read_lines_Cons)
         (simp add: parse_process_char_def parse_add_char_def)
  next
    case False
    have "esc (c # s) @ rest = c # (esc s @ rest)"
      using False by (simp add: esc_simps)
    then show ?thesis
      using False ne
      by (simp only: read_lines_Cons)
         (simp add: parse_process_char_def parse_add_char_def)
  qed
  show ?case
    using step Cons.IH [of "b @ [c]"] Cons.prems by simp
qed


lemma csv_field_quoted:
  "needs_quote (field_text v) \<Longrightarrow> csv_field v = dquote # esc (field_text v) @ [dquote]"
  by (simp add: csv_field_def csv_quote_def esc_def)

lemma csv_field_plain:
  "\<not> needs_quote (field_text v) \<Longrightarrow> csv_field v = field_text v"
  by (simp add: csv_field_def)

lemma plain_chars:
  "\<not> needs_quote s \<Longrightarrow> \<forall>c \<in> set s. \<not> is_newline c \<and> c \<noteq> CHR '','' \<and> c \<noteq> dquote"
  by (auto simp: needs_quote_def is_newline_def)

lemma field_body:
  assumes st: "st = START_RECORD \<or> st = START_FIELD" and rest: "rest \<noteq> []"
  shows "read_rows \<lparr>pst = st, field_buf = [], fields_done = fs\<rparr> (lines_of (csv_field v @ rest)) =
         read_rows \<lparr>pst = (if needs_quote (field_text v) then QUOTE_IN_QUOTED_FIELD
                           else if field_text v = [] then st else IN_FIELD),
                    field_buf = field_text v, fields_done = fs\<rparr> (lines_of rest)"
proof (cases "needs_quote (field_text v)")
  case True
  have le: "\<not> line_ends dquote t" for t by (simp add: line_ends_def dquote_def)
  have nn: "\<not> is_newline dquote" by (simp add: is_newline_def dquote_def)
  have "read_rows \<lparr>pst = st, field_buf = [], fields_done = fs\<rparr> (lines_of (csv_field v @ rest)) =
        read_rows \<lparr>pst = st, field_buf = [], fields_done = fs\<rparr>
          (lines_of (dquote # (esc (field_text v) @ dquote # rest)))"
    using True by (simp add: csv_field_quoted)
  also have "\<dots> = read_rows \<lparr>pst = IN_QUOTED_FIELD, field_buf = [], fields_done = fs\<rparr>
          (lines_of (esc (field_text v) @ dquote # rest))"
    using st le nn
    by (simp only: read_lines_Cons) (auto simp: parse_process_char_def start_field_def)
  also have "\<dots> = read_rows \<lparr>pst = IN_QUOTED_FIELD, field_buf = [] @ field_text v, fields_done = fs\<rparr>
          (lines_of (dquote # rest))"
    by (rule in_quoted_field) simp
  also have "\<dots> = read_rows \<lparr>pst = QUOTE_IN_QUOTED_FIELD, field_buf = field_text v, fields_done = fs\<rparr>
          (lines_of rest)"
    using rest le
    by (simp only: read_lines_Cons) (simp add: parse_process_char_def)
  finally show ?thesis using True by simp
next
  case False
  note nq = this
  show ?thesis
  proof (cases "field_text v")
    case Nil
    then show ?thesis using nq by (simp add: csv_field_plain)
  next
    case (Cons c s)
    have pl: "\<forall>x \<in> set (c # s). \<not> is_newline x \<and> x \<noteq> CHR '','' \<and> x \<noteq> dquote"
      using plain_chars [OF nq] Cons by simp
    then have c: "\<not> is_newline c" "c \<noteq> CHR '',''" "c \<noteq> dquote" by simp_all
    then have le: "\<not> line_ends c (s @ rest)" by (auto simp: line_ends_def is_newline_def)
    have "read_rows \<lparr>pst = st, field_buf = [], fields_done = fs\<rparr> (lines_of (csv_field v @ rest)) =
          read_rows \<lparr>pst = st, field_buf = [], fields_done = fs\<rparr> (lines_of (c # (s @ rest)))"
      using nq Cons by (simp add: csv_field_plain)
    also have "\<dots> = read_rows \<lparr>pst = IN_FIELD, field_buf = [c], fields_done = fs\<rparr> (lines_of (s @ rest))"
      using st c le rest
      by (simp only: read_lines_Cons)
         (auto simp: parse_process_char_def start_field_def parse_add_char_def)
    also have "\<dots> = read_rows \<lparr>pst = IN_FIELD, field_buf = [c] @ s, fields_done = fs\<rparr> (lines_of rest)"
      using pl rest by (intro in_field_plain) simp_all
    finally show ?thesis using nq Cons by simp
  qed
qed

lemma comma_ends_field:
  assumes "st = START_RECORD \<or> st = START_FIELD \<or> st = IN_FIELD \<or> st = QUOTE_IN_QUOTED_FIELD"
    and "rest \<noteq> []"
  shows "read_rows \<lparr>pst = st, field_buf = b, fields_done = fs\<rparr> (lines_of (CHR '','' # rest)) =
         read_rows \<lparr>pst = START_FIELD, field_buf = [], fields_done = fs @ [b]\<rparr> (lines_of rest)"
proof -
  have "\<not> line_ends (CHR '','') rest" by (simp add: line_ends_def)
  then show ?thesis
    using assms
    by (simp only: read_lines_Cons)
       (auto simp: parse_process_char_def start_field_def parse_save_field_def is_newline_def
          dquote_def)
qed

lemma crlf_ends_row:
  assumes "st = START_FIELD \<or> st = IN_FIELD \<or> st = QUOTE_IN_QUOTED_FIELD"
  shows "read_rows \<lparr>pst = st, field_buf = b, fields_done = fs\<rparr>
           (lines_of (CHR 0x0D # CHR 0x0A # rest)) =
         cons_row (fs @ [b]) (read_rows parse_reset (lines_of rest))"
proof -
  have "\<not> line_ends (CHR 0x0D) (CHR 0x0A # rest)" and "line_ends (CHR 0x0A) rest"
    by (simp_all add: line_ends_def)
  then show ?thesis
    using assms
    by (simp only: read_lines_Cons)
       (auto simp: parse_process_char_def start_field_def parse_save_field_def is_newline_def
          dquote_def)
qed

lemma field_then_comma:
  assumes st: "st = START_RECORD \<or> st = START_FIELD" and rest: "rest \<noteq> []"
  shows "read_rows \<lparr>pst = st, field_buf = [], fields_done = fs\<rparr>
           (lines_of (csv_field v @ CHR '','' # rest)) =
         read_rows \<lparr>pst = START_FIELD, field_buf = [], fields_done = fs @ [field_text v]\<rparr>
           (lines_of rest)"
proof -
  let ?st = "if needs_quote (field_text v) then QUOTE_IN_QUOTED_FIELD
             else if field_text v = [] then st else IN_FIELD"
  have "read_rows \<lparr>pst = st, field_buf = [], fields_done = fs\<rparr>
           (lines_of (csv_field v @ CHR '','' # rest)) =
        read_rows \<lparr>pst = ?st, field_buf = field_text v, fields_done = fs\<rparr>
           (lines_of (CHR '','' # rest))"
    by (rule field_body [OF st]) simp
  also have "\<dots> = read_rows \<lparr>pst = START_FIELD, field_buf = [], fields_done = fs @ [field_text v]\<rparr>
           (lines_of rest)"
  proof (rule comma_ends_field)
    show "?st = START_RECORD \<or> ?st = START_FIELD \<or> ?st = IN_FIELD \<or> ?st = QUOTE_IN_QUOTED_FIELD"
      using st by auto
    show "rest \<noteq> []" by (rule rest)
  qed
  finally show ?thesis .
qed

lemma field_then_crlf:
  "read_rows \<lparr>pst = START_FIELD, field_buf = [], fields_done = fs\<rparr>
     (lines_of (csv_field v @ CHR 0x0D # CHR 0x0A # rest)) =
   cons_row (fs @ [field_text v]) (read_rows parse_reset (lines_of rest))"
proof -
  let ?st = "if needs_quote (field_text v) then QUOTE_IN_QUOTED_FIELD
             else if field_text v = [] then START_FIELD else IN_FIELD"
  have "read_rows \<lparr>pst = START_FIELD, field_buf = [], fields_done = fs\<rparr>
           (lines_of (csv_field v @ CHR 0x0D # CHR 0x0A # rest)) =
        read_rows \<lparr>pst = ?st, field_buf = field_text v, fields_done = fs\<rparr>
           (lines_of (CHR 0x0D # CHR 0x0A # rest))"
    by (rule field_body) simp_all
  also have "\<dots> = cons_row (fs @ [field_text v]) (read_rows parse_reset (lines_of rest))"
  proof (rule crlf_ends_row)
    show "?st = START_FIELD \<or> ?st = IN_FIELD \<or> ?st = QUOTE_IN_QUOTED_FIELD"
      by auto
  qed
  finally show ?thesis .
qed

lemma read_row:
  "read_rows parse_reset (lines_of (csv_row [a, b, c] @ rest)) =
     cons_row [field_text a, field_text b, field_text c] (read_rows parse_reset (lines_of rest))"
proof -
  let ?r3 = "csv_field c @ CHR 0x0D # CHR 0x0A # rest"
  let ?r2 = "csv_field b @ CHR '','' # ?r3"
  have t: "csv_row [a, b, c] @ rest = csv_field a @ CHR '','' # ?r2"
    by (simp add: csv_row_def)
  have "read_rows parse_reset (lines_of (csv_row [a, b, c] @ rest)) =
        read_rows \<lparr>pst = START_RECORD, field_buf = [], fields_done = []\<rparr>
          (lines_of (csv_field a @ CHR '','' # ?r2))"
    by (simp only: t parse_reset_def)
  also have "\<dots> = read_rows \<lparr>pst = START_FIELD, field_buf = [], fields_done = [] @ [field_text a]\<rparr>
          (lines_of ?r2)"
    by (rule field_then_comma) simp_all
  also have "\<dots> = read_rows \<lparr>pst = START_FIELD, field_buf = [],
                       fields_done = ([] @ [field_text a]) @ [field_text b]\<rparr> (lines_of ?r3)"
    by (rule field_then_comma) simp_all
  also have "\<dots> = cons_row ((([] @ [field_text a]) @ [field_text b]) @ [field_text c])
                      (read_rows parse_reset (lines_of rest))"
    by (rule field_then_crlf)
  finally show ?thesis by simp
qed

lemma read_rows_of_records:
  "read_rows parse_reset (lines_of (concat (map (\<lambda>r. csv_row (row_of r)) results))) =
     Inr (map (\<lambda>r. map field_text (row_of r)) results)"
proof (induction results)
  case Nil
  show ?case by (simp add: read_lines_Nil del: lines_of.simps read_rows.simps)
next
  case (Cons r results)
  have "csv_row (row_of r) = csv_row [title r, url r, snippet r]"
    by (simp add: row_of_def)
  then show ?case
    using read_row [of "title r" "url r" "snippet r"
        "concat (map (\<lambda>r. csv_row (row_of r)) results)"] Cons.IH
    by (simp add: cons_row_def row_of_def del: lines_of.simps read_rows.simps)
qed

lemma csv_reader_csv_text:
  "csv_reader (csv_text results) =
     Inr ([''title'', ''url'', ''snippet''] # map (\<lambda>r. map field_text (row_of r)) results)"
  unfolding csv_reader_def csv_text_def
  using read_row [of "Some ''title''" "Some ''url''" "Some ''snippet''"
      "concat (map (\<lambda>r. csv_row (row_of r)) results)"]
  by (simp add: read_rows_of_records cons_row_def del: lines_of.simps read_rows.simps)

text \<open>
  C6, as the spec states it, fails for a record with an absent field: the writer puts the
  empty text for \<^verbatim>\<open>None\<close>, and the row read back holds the empty text, which is
  not the record's triple.
\<close>

theorem csv_round_trip_counterexample:
  "files (fst (save_csv world_down [rec_b] ''daily_jobs_google.csv''
      \<lparr>trace = [], files = Map.empty\<rparr>)) ''daily_jobs_google.csv'' = Some (csv_text [rec_b]) \<and>
   csv_reader (csv_text [rec_b]) =
     Inr [[''title'', ''url'', ''snippet''], [''SRE'', ''https://x.com/b'', []]] \<and>
   [title rec_b, url rec_b, snippet rec_b] = [Some ''SRE'', Some ''https://x.com/b'', None] \<and>
   map Some [''SRE'', ''https://x.com/b'', []] \<noteq> [title rec_b, url rec_b, snippet rec_b]"
  by (simp add: csv_reader_csv_text save_csv_def world_down_def row_of_def rec_b_def)

text \<open>
  C6, amended. Writing any sequence of records with \<open>save_csv\<close> and reading the file back
  as plain rows gives the header row and then one row per record, in the same order, with
  the record's title, url and snippet, an absent field read back as the empty text.
\<close>

theorem csv_round_trip:
  "open_error w fname = None \<Longrightarrow>
   (\<exists>text. files (fst (save_csv w results fname st)) fname = Some text \<and>
      csv_reader text =
        Inr ([''title'', ''url'', ''snippet''] #
             map (\<lambda>r. [field_text (title r), field_text (url r), field_text (snippet r)]) results))"
  by (simp add: save_csv_def csv_reader_csv_text row_of_def)

theorem csv_round_trip_witness:
  \<open>open_error world_down ''daily_jobs_google.csv'' = None \<and>
   (\<exists>text. files (fst (save_csv world_down [rec_tricky, rec_b] ''daily_jobs_google.csv''
               \<lparr>trace = [], files = Map.empty\<rparr>)) ''daily_jobs_google.csv'' = Some text \<and>
      csv_reader text =
        Inr [[''title'', ''url'', ''snippet''],
             [''Dev, "Ops"'', ''https://x.com/c'', [CHR ''a'', CHR 0x0D, CHR 0x0A, CHR ''b'']],
             [''SRE'', ''https://x.com/b'', []]])\<close>
proof -
  have h: "open_error world_down ''daily_jobs_google.csv'' = None"
    by (simp add: world_down_def)
  from csv_round_trip [OF h, of "[rec_tricky, rec_b]" "\<lparr>trace = [], files = Map.empty\<rparr>"]
  show ?thesis
    using h by (simp add: rec_tricky_def rec_b_def)
qed

end
